theory Spec2Isabelle
  imports Main
begin

section \<open>JavaScript string primitives used by the sources\<close>

text \<open>
  Strings are character lists.  The three primitives below are the ones the sources
  call on strings: \<^verbatim>\<open>startsWith\<close>, \<^verbatim>\<open>endsWith\<close> and \<^verbatim>\<open>split\<close> with a
  non-empty separator string.
\<close>

definition startsWith :: "string \<Rightarrow> string \<Rightarrow> bool" where
  "startsWith s p = (take (length p) s = p)"

definition endsWith :: "string \<Rightarrow> string \<Rightarrow> bool" where
  "endsWith s p = (length p \<le> length s \<and> drop (length s - length p) s = p)"

text \<open>
  \<^verbatim>\<open>s.split(sep)\<close>: the string is scanned from the left; at every position where
  \<open>sep\<close> occurs the piece collected so far is emitted and the scan resumes behind the
  occurrence.  The result always has at least one element (\<^verbatim>\<open>''.split('*')\<close> is
  \<^verbatim>\<open>['']\<close>).  The sources only split on \<^verbatim>\<open>'**'\<close>, \<^verbatim>\<open>'*'\<close>, \<^verbatim>\<open>'.'\<close>; the
  path library splits on \<^verbatim>\<open>'/'\<close>.  With an empty separator the function below returns
  the string as one piece, a case no caller reaches.
\<close>

fun split_scan :: "string \<Rightarrow> string \<Rightarrow> string \<Rightarrow> string list" where
  "split_scan sep acc [] = [rev acc]"
| "split_scan sep acc (c # cs) =
     (if sep \<noteq> [] \<and> take (length sep) (c # cs) = sep
      then rev acc # split_scan sep [] (drop (length sep - 1) cs)
      else split_scan sep (c # acc) cs)"

definition split_on :: "string \<Rightarrow> string \<Rightarrow> string list" where
  "split_on sep s = split_scan sep [] s"

text \<open>\<^verbatim>\<open>parts.join(sep)\<close> on an array of strings.\<close>

fun join_with :: "string \<Rightarrow> string list \<Rightarrow> string" where
  "join_with sep [] = []"
| "join_with sep [x] = x"
| "join_with sep (x # y # ys) = x @ sep @ join_with sep (y # ys)"

text \<open>
  The truthiness test on an optional string (\<^verbatim>\<open>x ? a : b\<close>, \<^verbatim>\<open>x && a\<close>, \<^verbatim>\<open>x || a\<close>,
  \<^verbatim>\<open>!x\<close>): \<^verbatim>\<open>undefined\<close> and the empty string are falsy.
\<close>

definition truthy :: "string option \<Rightarrow> bool" where
  "truthy s = (case s of None \<Rightarrow> False | Some v \<Rightarrow> v \<noteq> [])"

text \<open>The value itself where it is truthy, for \<^verbatim>\<open>if (x) { ... x ... }\<close>.\<close>

definition truthy_value :: "string option \<Rightarrow> string option" where
  "truthy_value s = (if truthy s then s else None)"

section \<open>The path library (Node.js \<^verbatim>\<open>path\<close>, POSIX flavour)\<close>

text \<open>
  \<^verbatim>\<open>Path.sep\<close>, \<^verbatim>\<open>Path.normalize\<close>, \<^verbatim>\<open>Path.join\<close> and \<^verbatim>\<open>Path.basename\<close> belong
  to the runtime's standard library, not to the repository.  They are written out here
  after the POSIX implementation: the separator is \<^verbatim>\<open>/\<close>.
\<close>

definition sep :: string where
  "sep = ''/''"

text \<open>
  \<^verbatim>\<open>normalizeString\<close>: the segments between separators are pushed on a stack (kept
  reversed here).  Empty segments and \<^verbatim>\<open>.\<close> are dropped; \<^verbatim>\<open>..\<close> removes the last
  pushed segment unless there is none or it is \<^verbatim>\<open>..\<close> itself, in which case it is
  kept when the path is relative and dropped when it is absolute.
\<close>

fun normalize_step :: "bool \<Rightarrow> string list \<Rightarrow> string \<Rightarrow> string list" where
  "normalize_step allowAboveRoot stack seg =
     (if seg = [] \<or> seg = ''.'' then stack
      else if seg = ''..'' then
        (if stack \<noteq> [] \<and> hd stack \<noteq> ''..'' then tl stack
         else if allowAboveRoot then ''..'' # stack
         else stack)
      else seg # stack)"

definition normalizeString :: "string \<Rightarrow> bool \<Rightarrow> string" where
  "normalizeString path allowAboveRoot =
     join_with ''/'' (rev (foldl (normalize_step allowAboveRoot) [] (split_on ''/'' path)))"

definition normalize :: "string \<Rightarrow> string" where
  "normalize path =
     (if path = [] then ''.''
      else
        let isAbsolute = (hd path = CHR ''/'');
            trailingSeparator = (last path = CHR ''/'');
            p = normalizeString path (\<not> isAbsolute)
        in if p = [] then
             (if isAbsolute then ''/'' else if trailingSeparator then ''./'' else ''.'')
           else
             (if isAbsolute then ''/'' else []) @ p @ (if trailingSeparator then ''/'' else []))"

text \<open>
  \<^verbatim>\<open>Path.join(...args)\<close>: the non-empty arguments are glued with the separator and
  the result is normalised; with no non-empty argument the result is \<^verbatim>\<open>.\<close>.
\<close>

definition join_path :: "string list \<Rightarrow> string" where
  "join_path args =
     (let nonEmpty = filter (\<lambda>a. a \<noteq> []) args
      in if nonEmpty = [] then ''.'' else normalize (join_with ''/'' nonEmpty))"

text \<open>
  \<^verbatim>\<open>Path.basename(path)\<close> without extension argument: trailing separators are
  ignored, and the characters after the last remaining separator are returned.
\<close>

definition basename :: "string \<Rightarrow> string" where
  "basename path =
     (let trimmed = rev (dropWhile (\<lambda>c. c = CHR ''/'') (rev path))
      in rev (takeWhile (\<lambda>c. c \<noteq> CHR ''/'') (rev trimmed)))"

text \<open>
  \<^verbatim>\<open>Path.resolve(...paths)\<close>: the arguments are taken from the right until one of them
  is absolute; when none is, the working directory (\<^verbatim>\<open>process.cwd()\<close>) is taken last.
  Empty arguments are skipped.  The result is normalised and has no trailing separator.
  The first function is the loop, over the arguments from right to left with the working
  directory at the end.
\<close>

fun resolve_scan :: "string list \<Rightarrow> string \<Rightarrow> string \<times> bool" where
  "resolve_scan [] resolvedPath = (resolvedPath, False)"
| "resolve_scan (p # ps) resolvedPath =
     (if p = [] then resolve_scan ps resolvedPath
      else if hd p = CHR ''/'' then (p @ ''/'' @ resolvedPath, True)
      else resolve_scan ps (p @ ''/'' @ resolvedPath))"

definition resolve_path :: "string \<Rightarrow> string list \<Rightarrow> string" where
  "resolve_path cwd args =
     (case resolve_scan (rev args @ [cwd]) [] of
        (resolvedPath, resolvedAbsolute) \<Rightarrow>
          let p = normalizeString resolvedPath (\<not> resolvedAbsolute)
          in if resolvedAbsolute then ''/'' @ p else if p \<noteq> [] then p else ''.'')"

section \<open>Captures and \<^verbatim>\<open>Artifact.buildPath\<close>\<close>

text \<open>
  A capture is \<^verbatim>\<open>string | string[]\<close> in the source, told apart by
  \<^verbatim>\<open>typeof capture === 'string'\<close>: the text matched by one \<^verbatim>\<open>*\<close>, or the list of
  segments matched by one \<^verbatim>\<open>**\<close>.
\<close>

datatype Capture = Segment string | SegmentRun "string list"

text \<open>The first loop of \<^verbatim>\<open>buildPath\<close> sorts the captures into two arrays, in order.\<close>

fun starCaptures_of :: "Capture list \<Rightarrow> string list" where
  "starCaptures_of [] = []"
| "starCaptures_of (Segment s # cs) = s # starCaptures_of cs"
| "starCaptures_of (SegmentRun r # cs) = starCaptures_of cs"

fun globStarsCaptures_of :: "Capture list \<Rightarrow> string list list" where
  "globStarsCaptures_of [] = []"
| "globStarsCaptures_of (Segment s # cs) = globStarsCaptures_of cs"
| "globStarsCaptures_of (SegmentRun r # cs) = r # globStarsCaptures_of cs"

text \<open>\<^verbatim>\<open>parts.splice(i, 0, x)\<close>: insert \<open>x\<close> before index \<open>i\<close> (at the end when \<open>i\<close> is beyond it).\<close>

definition splice_in :: "nat \<Rightarrow> 'a \<Rightarrow> 'a list \<Rightarrow> 'a list" where
  "splice_in i x parts = take i parts @ x # drop i parts"

text \<open>
  The loop \<^verbatim>\<open>for (i = parts.length - 1; i > 0 && globStarsCaptures.length; i--)\<close>:
  the first argument is \<open>i\<close>.  Each round pops the last capture; an empty run is popped
  and nothing is inserted.
\<close>

fun splice_globStars :: "nat \<Rightarrow> string list \<Rightarrow> string list list \<Rightarrow> string list" where
  "splice_globStars 0 parts globStarsCaptures = parts"
| "splice_globStars (Suc n) parts globStarsCaptures =
     (if globStarsCaptures = [] then parts
      else
        let capture = last globStarsCaptures
        in splice_globStars n
             (if capture \<noteq> [] then splice_in (Suc n) (join_path capture) parts else parts)
             (butlast globStarsCaptures))"

text \<open>The loop \<^verbatim>\<open>for (i = parts.length - 1; i > 0 && starCaptures.length; i--)\<close>.\<close>

fun splice_stars :: "nat \<Rightarrow> string list \<Rightarrow> string list \<Rightarrow> string list" where
  "splice_stars 0 parts starCaptures = parts"
| "splice_stars (Suc n) parts starCaptures =
     (if starCaptures = [] then parts
      else splice_stars n (splice_in (Suc n) (last starCaptures) parts) (butlast starCaptures))"

definition buildPath :: "string \<Rightarrow> Capture list \<Rightarrow> string" where
  "buildPath pattern captures =
     (let starCaptures = starCaptures_of captures;
          globStarsCaptures = globStarsCaptures_of captures;
          startWithSlash = startsWith pattern sep;
          parts = split_on ''**'' pattern;
          parts = (if length parts > 1
                   then splice_globStars (length parts - 1) parts globStarsCaptures
                   else parts);
          parts = split_on ''*'' (join_with [] parts);
          parts = (if length parts > 1
                   then splice_stars (length parts - 1) parts starCaptures
                   else parts);
          path = normalize (join_with [] parts)
      in if \<not> startWithSlash \<and> startsWith path sep then drop 1 path else path)"

section \<open>Errors\<close>

text \<open>
  The sources raise \<^verbatim>\<open>ExpectedError\<close> with five different messages; the runtime raises
  a \<^verbatim>\<open>TypeError\<close> when a property of \<^verbatim>\<open>null\<close> or \<^verbatim>\<open>undefined\<close> is read or when
  something that is not a function is called; walking the file system and writing a file
  may fail with an error of the host (\<open>IOError\<close>).
  \<^item> \<open>MissingFiles\<close>: \<^verbatim>\<open>Missing `files` field in `artifact` configuration\<close>
  \<^item> \<open>PatternRequired\<close>: \<^verbatim>\<open>Property `pattern` is required for mapping ...\<close>
  \<^item> \<open>PatternMatchesDirectory\<close>:
    \<^verbatim>\<open>Expecting mapping pattern to match files instead of directories\<close>
  \<^item> \<open>InvalidPathOption\<close>: \<^verbatim>\<open>Invalid path option\<close>
  \<^item> \<open>DependencyNotFound name\<close>: \<^verbatim>\<open>Dependency package "name" not found\<close>
\<close>

datatype error =
    MissingFiles
  | PatternRequired
  | PatternMatchesDirectory
  | InvalidPathOption
  | DependencyNotFound string
  | TypeError
  | IOError

section \<open>The template renderer\<close>

text \<open>
  \<^verbatim>\<open>render\<close> reads its \<^verbatim>\<open>data\<close> (typed \<^verbatim>\<open>Dictionary<any>\<close>) in two ways only:
  \<^verbatim>\<open>node[key]\<close> and the conversion to a string that \<^verbatim>\<open>String.prototype.replace\<close>
  applies to what the callback returns.  A value is therefore modelled by what these two
  operations see of it: \<^verbatim>\<open>undefined\<close>, \<^verbatim>\<open>null\<close>, or any other value, given by its
  string conversion (which may itself raise) and by the function from property keys to
  values.  Reading a property of \<^verbatim>\<open>null\<close> or \<^verbatim>\<open>undefined\<close> raises a
  \<^verbatim>\<open>TypeError\<close>.
\<close>

datatype jsval =
    JUndefined
  | JNull
  | JValue "error + string" "string \<Rightarrow> jsval"

fun get_property :: "jsval \<Rightarrow> string \<Rightarrow> error + jsval" where
  "get_property JUndefined key = Inl TypeError"
| "get_property JNull key = Inl TypeError"
| "get_property (JValue str props) key = Inr (props key)"

fun to_string :: "jsval \<Rightarrow> error + string" where
  "to_string JUndefined = Inr ''undefined''"
| "to_string JNull = Inr ''null''"
| "to_string (JValue str props) = str"

text \<open>
  Two ways to build values for concrete inputs: a string, and an object with the listed
  own properties.  What a value inherits is not part of them: a string answers
  \<^verbatim>\<open>undefined\<close> here also under \<^verbatim>\<open>length\<close>, an object also under \<^verbatim>\<open>constructor\<close>
  or \<^verbatim>\<open>toString\<close>, where the runtime answers with a property of
  \<^verbatim>\<open>String.prototype\<close> or \<^verbatim>\<open>Object.prototype\<close>.  They stand for the runtime's
  values at the keys that are not inherited, and are used at such keys only; no
  property of a string is read.
\<close>

definition js_string :: "string \<Rightarrow> jsval" where
  "js_string s = JValue (Inr s) (\<lambda>key. JUndefined)"

definition js_object :: "(string \<times> jsval) list \<Rightarrow> jsval" where
  "js_object entries =
     JValue (Inr ''[object Object]'')
       (\<lambda>key. case map_of entries key of None \<Rightarrow> JUndefined | Some v \<Rightarrow> v)"

text \<open>
  The loop \<^verbatim>\<open>for (let key of keys) { node = node[key]; if (node === undefined) return text; }\<close>.
  \<open>None\<close> stands for the early return of the placeholder's own text.
\<close>

fun lookup_keys :: "jsval \<Rightarrow> string list \<Rightarrow> error + jsval option" where
  "lookup_keys node [] = Inr (Some node)"
| "lookup_keys node (key # keys) =
     (case get_property node key of
        Inl e \<Rightarrow> Inl e
      | Inr JUndefined \<Rightarrow> Inr None
      | Inr node' \<Rightarrow> lookup_keys node' keys)"

text \<open>The callback handed to \<^verbatim>\<open>replace\<close>: \<open>text\<close> is the whole match, \<open>expression\<close> its group.\<close>

definition replacer :: "jsval \<Rightarrow> string \<Rightarrow> string \<Rightarrow> error + string" where
  "replacer data text expression =
     (case lookup_keys data (split_on ''.'' expression) of
        Inl e \<Rightarrow> Inl e
      | Inr None \<Rightarrow> Inr text
      | Inr (Some node) \<Rightarrow> to_string node)"

text \<open>The character class \<^verbatim>\<open>[$\w.-]\<close>: ASCII letters, digits, underscore, dollar, dot, hyphen.\<close>

definition expr_char :: "char \<Rightarrow> bool" where
  "expr_char c =
     (c \<in> set ''abcdefghijklmnopqrstuvwxyzABCDEFGHIJKLMNOPQRSTUVWXYZ0123456789_$.-'')"

text \<open>
  Two computations that may raise, run one after the other, their strings concatenated:
  what the first one raises is raised, and the second one is not run.
\<close>

definition seq_result :: "error + string \<Rightarrow> error + string \<Rightarrow> error + string" where
  "seq_result r1 r2 =
     (case r1 of
        Inl e \<Rightarrow> Inl e
      | Inr a \<Rightarrow> (case r2 of Inl e \<Rightarrow> Inl e | Inr b \<Rightarrow> Inr (a @ b)))"

text \<open>
  \<^verbatim>\<open>template.replace(/\{([$\w.-]+)\}/g, f)\<close>.  The class contains neither brace, so at
  an opening brace the only candidate match is the longest run of class characters behind
  it, and it matches when the run is not empty and a closing brace follows.  After a
  match the callback's string is emitted and the scan resumes behind the closing brace;
  otherwise one character is copied.  An exception of the callback ends the whole call.
\<close>

function replace_placeholders ::
  "(string \<Rightarrow> string \<Rightarrow> error + string) \<Rightarrow> string \<Rightarrow> error + string" where
  "replace_placeholders f [] = Inr []"
| "replace_placeholders f (c # cs) =
     (if c = CHR ''{'' \<and> takeWhile expr_char cs \<noteq> []
         \<and> take 1 (dropWhile expr_char cs) = ''}''
      then seq_result (f (c # takeWhile expr_char cs @ ''}'') (takeWhile expr_char cs))
             (replace_placeholders f (drop 1 (dropWhile expr_char cs)))
      else seq_result (Inr [c]) (replace_placeholders f cs))"
  by pat_completeness auto
termination
  by (relation "measure (\<lambda>(f, s). length s)")
     (auto intro!: le_imp_less_Suc le_trans [OF diff_le_self length_dropWhile_le])

text \<open>
  \<^verbatim>\<open>render\<close> calls itself on its result until a pass changes nothing.  Nothing bounds
  the number of passes, so the model is a partial function: \<open>None\<close> is a run that never
  returns, \<open>Some (Inl e)\<close> a raised exception, \<open>Some (Inr s)\<close> the returned string.
\<close>

partial_function (option) render :: "string \<Rightarrow> jsval \<Rightarrow> (error + string) option" where
  "render template data =
     (case replace_placeholders (replacer data) template of
        Inl e \<Rightarrow> Some (Inl e)
      | Inr result \<Rightarrow> if result = template then Some (Inr result) else render result data)"

declare render.simps [code]

section \<open>Platform resolution (\<^verbatim>\<open>Configuration.getMatchedPlatforms\<close>)\<close>

text \<open>
  Optional fields are options.  The fields of the different interfaces share names in
  the source (\<^verbatim>\<open>platform\<close>, \<^verbatim>\<open>platforms\<close>, \<^verbatim>\<open>pattern\<close>, \<^verbatim>\<open>path\<close>, \<^verbatim>\<open>name\<close>); here each
  record's fields carry a prefix.  \<open>pi_data\<close> holds the variables of a platform: the field
  \<^verbatim>\<open>data\<close> of the interface \<^verbatim>\<open>PlatformInfo\<close>, which \<^verbatim>\<open>Artifact.walk\<close> reads as
  \<^verbatim>\<open>platform.variables\<close>.
\<close>

record PlatformSpecifier =
  ps_multiplatform :: "bool option"
  ps_platform :: "string option"
  ps_platforms :: "string list option"

record PlatformInfo =
  pi_name :: string
  pi_env :: "(string \<times> string) list option"
  pi_data :: "(string \<times> jsval) list option"

record MatchedPlatformsResult =
  res_platforms :: "PlatformInfo list"
  res_specified :: bool

text \<open>
  \<open>host\<close> is \<^verbatim>\<open>process.platform\<close>.  The conditions are JavaScript truthiness tests: an
  array is truthy even when empty, a string only when it is not empty.
\<close>

definition platformNames_of :: "PlatformSpecifier \<Rightarrow> string list option" where
  "platformNames_of specifier =
     (case ps_platforms specifier of
        Some names \<Rightarrow> Some names
      | None \<Rightarrow>
          if truthy (ps_platform specifier)
          then map_option (\<lambda>p. [p]) (ps_platform specifier)
          else None)"

definition getMatchedPlatforms ::
  "string \<Rightarrow> PlatformSpecifier \<Rightarrow> PlatformInfo list \<Rightarrow> MatchedPlatformsResult" where
  "getMatchedPlatforms host specifier platforms =
     (case platformNames_of specifier of
        Some platformNames \<Rightarrow>
          \<lparr>res_platforms =
             filter (\<lambda>platform. pi_name platform \<in> set platformNames) platforms,
           res_specified = True\<rparr>
      | None \<Rightarrow>
          if ps_multiplatform specifier = Some True
          then \<lparr>res_platforms = platforms, res_specified = True\<rparr>
          else \<lparr>res_platforms = [\<lparr>pi_name = host, pi_env = None, pi_data = None\<rparr>],
                res_specified = False\<rparr>)"

section \<open>Mapping normalisation (\<^verbatim>\<open>Artifact.normalizeMapping\<close>)\<close>

record FileMappingDescriptor =
  fd_pattern :: "string option"
  fd_baseDir :: "string option"
  fd_package :: "string option"
  fd_path :: "string option"
  fd_platform :: "string option"
  fd_platforms :: "string list option"

datatype FileMappingConfiguration =
    ConfigString string
  | ConfigDescriptor FileMappingDescriptor

record FileMapping =
  fm_package :: "string option"
  fm_baseDir :: "string option"
  fm_pattern :: string
  fm_path :: string
  fm_platformSet :: "string set option"

text \<open>
  The first half of \<^verbatim>\<open>normalizeMapping\<close> reads the configuration entry.  The declared
  type makes \<^verbatim>\<open>pattern\<close> a required string, but the entry comes from a configuration
  file and the code tests it, so it is optional here.  \<^verbatim>\<open>x && f(x)\<close> and
  \<^verbatim>\<open>x ? f(x) : y\<close> take the first branch for a non-empty string only; the pattern that
  is missing or empty is \<open>None\<close> afterwards.
\<close>

definition read_pattern :: "FileMappingConfiguration \<Rightarrow> string option" where
  "read_pattern config =
     (case config of
        ConfigString s \<Rightarrow> Some (normalize s)
      | ConfigDescriptor d \<Rightarrow>
          (if truthy (fd_pattern d) then map_option normalize (fd_pattern d) else None))"

definition read_path :: "FileMappingConfiguration \<Rightarrow> string option" where
  "read_path config =
     (case config of
        ConfigString s \<Rightarrow> Some (normalize s)
      | ConfigDescriptor d \<Rightarrow>
          (if truthy (fd_path d) then map_option normalize (fd_path d) else read_pattern config))"

definition read_baseDir :: "FileMappingConfiguration \<Rightarrow> string option" where
  "read_baseDir config =
     (case config of
        ConfigString s \<Rightarrow> None
      | ConfigDescriptor d \<Rightarrow>
          (if truthy (fd_baseDir d) then map_option normalize (fd_baseDir d) else fd_baseDir d))"

definition read_package :: "FileMappingConfiguration \<Rightarrow> string option" where
  "read_package config =
     (case config of ConfigString s \<Rightarrow> None | ConfigDescriptor d \<Rightarrow> fd_package d)"

definition read_platformSet :: "FileMappingConfiguration \<Rightarrow> string set option" where
  "read_platformSet config =
     (case config of
        ConfigString s \<Rightarrow> None
      | ConfigDescriptor d \<Rightarrow>
          (case fd_platforms d of
             Some names \<Rightarrow> Some (set names)
           | None \<Rightarrow> if truthy (fd_platform d) then map_option (\<lambda>p. {p}) (fd_platform d) else None))"

definition normalizeMapping :: "FileMappingConfiguration \<Rightarrow> error + FileMapping" where
  "normalizeMapping config =
     (case read_pattern config of
        None \<Rightarrow> Inl PatternRequired
      | Some pattern \<Rightarrow>
          if endsWith pattern sep then Inl PatternMatchesDirectory
          else
            let baseName = basename pattern;
                path = (case read_path config of Some p \<Rightarrow> p | None \<Rightarrow> pattern)
            in if endsWith path sep \<and> baseName = ''**'' \<and> basename path = ''**''
               then Inl InvalidPathOption
               else Inr \<lparr>fm_package = read_package config,
                         fm_baseDir = read_baseDir config,
                         fm_pattern = pattern,
                         fm_path =
                           (if endsWith path sep then join_path [path, baseName] else path),
                         fm_platformSet = read_platformSet config\<rparr>)"

text \<open>
  The constructor: \<^verbatim>\<open>config.files.map(config => this.normalizeMapping(config))\<close>, after
  the test for a missing \<^verbatim>\<open>files\<close> field.  The first failing entry raises.
\<close>

fun normalize_all :: "FileMappingConfiguration list \<Rightarrow> error + FileMapping list" where
  "normalize_all [] = Inr []"
| "normalize_all (config # configs) =
     (case normalizeMapping config of
        Inl e \<Rightarrow> Inl e
      | Inr m \<Rightarrow> (case normalize_all configs of Inl e \<Rightarrow> Inl e | Inr ms \<Rightarrow> Inr (m # ms)))"

text \<open>
  The artifact configuration as \<^verbatim>\<open>artifact.ts\<close> reads it (\<^verbatim>\<open>id\<close>, \<^verbatim>\<open>targetDir\<close>,
  \<^verbatim>\<open>baseDir\<close>, \<^verbatim>\<open>files\<close>), and the object the constructor builds: the configuration
  and the normalised mappings.
\<close>

record ArtifactConfiguration =
  cfg_id :: "string option"
  cfg_targetDir :: "string option"
  cfg_baseDir :: "string option"
  cfg_files :: "FileMappingConfiguration list option"

record Artifact =
  art_config :: ArtifactConfiguration
  art_mappings :: "FileMapping list"

definition new_Artifact :: "ArtifactConfiguration \<Rightarrow> error + Artifact" where
  "new_Artifact config =
     (case cfg_files config of
        None \<Rightarrow> Inl MissingFiles
      | Some files \<Rightarrow>
          (case normalize_all files of
             Inl e \<Rightarrow> Inl e
           | Inr mappings \<Rightarrow> Inr \<lparr>art_config = config, art_mappings = mappings\<rparr>))"

section \<open>Artifact generation (\<^verbatim>\<open>Artifact.generate\<close>)\<close>

text \<open>
  \<^verbatim>\<open>generate\<close> uses two optional hooks of a plugin.  The metadata the first hook works
  on is kept abstract (type \<open>'m\<close>); the second hook receives the platform or
  \<^verbatim>\<open>undefined\<close> and returns the id template.  Both hooks are awaited one after the other
  and are taken to return.
\<close>

record 'm Plugin =
  processArtifactMetadata :: "('m \<Rightarrow> 'm) option"
  getDefaultArtifactId :: "(PlatformInfo option \<Rightarrow> string) option"

text \<open>
  An object handed to \<^verbatim>\<open>renderTemplate\<close> is written as the list of its properties in the
  order they are assigned (a later entry overwrites an earlier one of the same key).  A
  property holds \<^verbatim>\<open>undefined\<close>, a string, or a value out of the platform's variables.
\<close>

datatype datum = DUndefined | DString string | DValue jsval

text \<open>
  What \<^verbatim>\<open>Artifact\<close> reads of the project.  The class \<^verbatim>\<open>Project\<close> is defined elsewhere
  in the repository; its method \<^verbatim>\<open>renderTemplate(template, data?)\<close> is a field here,
  applied to the template and to the data object (\<open>None\<close> when there is none), and taken
  to return a string.  \<^verbatim>\<open>dependencyDirMap.get\<close> is a function to an optional string.
\<close>

record 'm Project =
  project_name :: string
  project_dir :: string
  project_distDir :: string
  project_plugins :: "'m Plugin list"
  project_platforms :: "PlatformInfo list"
  platformSpecified :: bool
  dependencyDirMap :: "string \<Rightarrow> string option"
  renderTemplate :: "string \<Rightarrow> (string \<times> datum) list option \<Rightarrow> string"

text \<open>
  What lies outside the program: the working directory, the file walker
  (\<^verbatim>\<open>new FileWalker(pattern).walk(baseDir, callback)\<close>, given by the matches it reports
  to the callback, each a path and its captures), the writing of an archive with its
  entries (source path and name in the archive) and the writing of the metadata file.
  Each of the three operations may fail, and each may change the state \<open>'s\<close> of the file
  system, which is passed along.
\<close>

record 's Host =
  host_cwd :: string
  host_walk :: "'s \<Rightarrow> string \<Rightarrow> string \<Rightarrow> (error + (string \<times> Capture list) list) \<times> 's"
  host_writeArchive :: "'s \<Rightarrow> string \<Rightarrow> (string \<times> string) list \<Rightarrow> error option \<times> 's"
  host_writeFile :: "'s \<Rightarrow> string \<Rightarrow> error option \<times> 's"

subsection \<open>\<^verbatim>\<open>resolveBaseDir\<close>\<close>

text \<open>
  The value of \<^verbatim>\<open>project.platformSpecified && project.dependencyDirMap.get(`${packageName}\t${platform}`) || project.dependencyDirMap.get(packageName)\<close>:
  the directory of the package for the platform when platforms are specified and the
  table has a non-empty entry under the name, a tabulator and the platform; the entry
  under the name alone otherwise.
\<close>

definition dependencyDir :: "'m Project \<Rightarrow> string \<Rightarrow> string \<Rightarrow> string option" where
  "dependencyDir project packageName platform =
     (if platformSpecified project
         \<and> truthy (dependencyDirMap project (packageName @ [CHR 0x09] @ platform))
      then dependencyDirMap project (packageName @ [CHR 0x09] @ platform)
      else dependencyDirMap project packageName)"

definition resolveBaseDir ::
  "Artifact \<Rightarrow> 'm Project \<Rightarrow> string \<Rightarrow> FileMapping \<Rightarrow> string \<Rightarrow> error + string" where
  "resolveBaseDir artifact project cwd mapping platform =
     (case truthy_value (fm_package mapping) of
        Some packageName \<Rightarrow>
          (case truthy_value (dependencyDir project packageName platform) of
             None \<Rightarrow> Inl (DependencyNotFound packageName)
           | Some baseDir \<Rightarrow>
               Inr (case truthy_value (fm_baseDir mapping) of
                      Some dir \<Rightarrow> resolve_path cwd [baseDir, dir]
                    | None \<Rightarrow> baseDir))
      | None \<Rightarrow>
          Inr (resolve_path cwd
                 ([project_dir project]
                  @ (case truthy_value (cfg_baseDir (art_config artifact)) of
                       Some dir \<Rightarrow> [dir]
                     | None \<Rightarrow> [])
                  @ (case truthy_value (fm_baseDir mapping) of
                       Some dir \<Rightarrow> [dir]
                     | None \<Rightarrow> []))))"

subsection \<open>\<^verbatim>\<open>walk\<close>\<close>

text \<open>\<^verbatim>\<open>Object.assign({ platform: platform.name }, platform.variables)\<close>.\<close>

definition walk_data :: "PlatformInfo \<Rightarrow> (string \<times> datum) list" where
  "walk_data platform =
     (''platform'', DString (pi_name platform))
     # (case pi_data platform of
          None \<Rightarrow> []
        | Some variables \<Rightarrow> map (\<lambda>(key, v). (key, DValue v)) variables)"

text \<open>
  The body of the loop over the mappings: the base directory is resolved (which may
  raise), the three templates are rendered, the target directory is put in front of the
  path, and the walker is run; every match adds one entry to the archive, the file
  \<^verbatim>\<open>Path.join(baseDir, path)\<close> under the name \<^verbatim>\<open>buildPath(mappingPath, captures)\<close>.  The
  lines printed to the console are left out.
\<close>

definition walk_mapping ::
  "Artifact \<Rightarrow> 'm Project \<Rightarrow> 's Host \<Rightarrow> PlatformInfo \<Rightarrow> FileMapping \<Rightarrow> 's
   \<Rightarrow> (error + (string \<times> string) list) \<times> 's" where
  "walk_mapping artifact project host platform mapping s =
     (case resolveBaseDir artifact project (host_cwd host) mapping (pi_name platform) of
        Inl e \<Rightarrow> (Inl e, s)
      | Inr dir \<Rightarrow>
          let data = Some (walk_data platform);
              baseDir = renderTemplate project dir data;
              mappingPattern = renderTemplate project (fm_pattern mapping) data;
              mappingPath = renderTemplate project (fm_path mapping) data;
              mappingPath =
                (case truthy_value (cfg_targetDir (art_config artifact)) of
                   Some targetDir \<Rightarrow>
                     join_path [renderTemplate project targetDir None, mappingPath]
                 | None \<Rightarrow> mappingPath)
          in case host_walk host s mappingPattern baseDir of
               (Inl e, s') \<Rightarrow> (Inl e, s')
             | (Inr matches, s') \<Rightarrow>
                 (Inr (map (\<lambda>(file, captures).
                              (join_path [baseDir, file], buildPath mappingPath captures))
                         matches),
                  s'))"

text \<open>
  The loop \<^verbatim>\<open>for (let mapping of mappings)\<close>.  The result lists the mappings gone
  through, each with its archive entries, and the exception that ended the loop, if any.
\<close>

fun walk ::
  "Artifact \<Rightarrow> 'm Project \<Rightarrow> 's Host \<Rightarrow> PlatformInfo \<Rightarrow> FileMapping list \<Rightarrow> 's
   \<Rightarrow> ((FileMapping \<times> (string \<times> string) list) list \<times> error option) \<times> 's" where
  "walk artifact project host platform [] s = (([], None), s)"
| "walk artifact project host platform (mapping # mappings) s =
     (case walk_mapping artifact project host platform mapping s of
        (Inl e, s') \<Rightarrow> (([], Some e), s')
      | (Inr entries, s') \<Rightarrow>
          (case walk artifact project host platform mappings s' of
             ((walked, r), s'') \<Rightarrow> (((mapping, entries) # walked, r), s'')))"

subsection \<open>\<^verbatim>\<open>generate\<close>\<close>

text \<open>The loop over \<^verbatim>\<open>project.plugins\<close>, with the metadata and \<^verbatim>\<open>defaultIdPlugin\<close> as state.\<close>

fun plugin_loop ::
  "'m Plugin list \<Rightarrow> 'm \<Rightarrow> 'm Plugin option \<Rightarrow> 'm \<times> 'm Plugin option" where
  "plugin_loop [] metadata defaultIdPlugin = (metadata, defaultIdPlugin)"
| "plugin_loop (plugin # plugins) metadata defaultIdPlugin =
     plugin_loop plugins
       (case processArtifactMetadata plugin of
          Some hook \<Rightarrow> hook metadata
        | None \<Rightarrow> metadata)
       (case getDefaultArtifactId plugin of
          Some generator \<Rightarrow> Some plugin
        | None \<Rightarrow> defaultIdPlugin)"

text \<open>
  The right operand of \<^verbatim>\<open>this.config.id || (...)\<close>.  Calling a hook that is not there
  would be a \<^verbatim>\<open>TypeError\<close>.
\<close>

definition default_idTemplate ::
  "'m Plugin option \<Rightarrow> bool \<Rightarrow> PlatformInfo \<Rightarrow> error + string" where
  "default_idTemplate defaultIdPlugin specified platform =
     (case defaultIdPlugin of
        Some plugin \<Rightarrow>
          (case getDefaultArtifactId plugin of
             Some generator \<Rightarrow> Inr (generator (if specified then Some platform else None))
           | None \<Rightarrow> Inl TypeError)
      | None \<Rightarrow> Inr (if specified then ''{name}-{platform}'' else ''{name}''))"

definition idTemplate_of ::
  "string option \<Rightarrow> 'm Plugin option \<Rightarrow> bool \<Rightarrow> PlatformInfo \<Rightarrow> error + string" where
  "idTemplate_of config_id defaultIdPlugin specified platform =
     (case config_id of
        Some i \<Rightarrow>
          if i \<noteq> [] then Inr i else default_idTemplate defaultIdPlugin specified platform
      | None \<Rightarrow> default_idTemplate defaultIdPlugin specified platform)"

text \<open>The object literal \<^verbatim>\<open>{ platform: project.platformSpecified ? platform.name : undefined }\<close>.\<close>

definition id_data :: "bool \<Rightarrow> PlatformInfo \<Rightarrow> (string \<times> datum) list" where
  "id_data specified platform =
     [(''platform'', if specified then DString (pi_name platform) else DUndefined)]"

text \<open>
  The first statements of a round of the loop over \<^verbatim>\<open>project.platforms\<close>: the id
  template and the id rendered from it.
\<close>

definition round_id ::
  "Artifact \<Rightarrow> 'm Project \<Rightarrow> 'm Plugin option \<Rightarrow> PlatformInfo \<Rightarrow> error + string" where
  "round_id artifact project defaultIdPlugin platform =
     (case idTemplate_of (cfg_id (art_config artifact)) defaultIdPlugin
             (platformSpecified project) platform of
        Inl e \<Rightarrow> Inl e
      | Inr idTemplate \<Rightarrow>
          Inr (renderTemplate project idTemplate
                 (Some (id_data (platformSpecified project) platform))))"

text \<open>
  \<^verbatim>\<open>this.mappings.filter(mapping => !mapping.platformSet || mapping.platformSet.has(platform.name))\<close>;
  a set object is truthy whatever it holds.
\<close>

definition active_mappings :: "FileMapping list \<Rightarrow> PlatformInfo \<Rightarrow> FileMapping list" where
  "active_mappings mappings platform =
     filter (\<lambda>mapping. case fm_platformSet mapping of
                          None \<Rightarrow> True
                        | Some s \<Rightarrow> pi_name platform \<in> s) mappings"

text \<open>
  One round of the loop over \<^verbatim>\<open>project.platforms\<close>: the id, the filtered mappings,
  \<^verbatim>\<open>walk\<close>, the archive written to \<^verbatim>\<open>Path.join(project.distDir, `${id}.zip`)\<close>, and the
  item pushed to the metadata (its \<^verbatim>\<open>path\<close>, relative to the distribution directory, is
  not recorded here).  An exception of \<^verbatim>\<open>walk\<close> or of the writing ends the round and
  \<^verbatim>\<open>generate\<close>; a round that completes yields a step.
\<close>

record ArtifactStep =
  step_platform :: PlatformInfo
  step_id :: string
  step_walked :: "(FileMapping \<times> (string \<times> string) list) list"
  step_archive :: string
  step_item_platform :: "string option"

definition generate_step ::
  "Artifact \<Rightarrow> 'm Project \<Rightarrow> 's Host \<Rightarrow> 'm Plugin option \<Rightarrow> PlatformInfo \<Rightarrow> 's
   \<Rightarrow> (error + ArtifactStep) \<times> 's" where
  "generate_step artifact project host defaultIdPlugin platform s =
     (case round_id artifact project defaultIdPlugin platform of
        Inl e \<Rightarrow> (Inl e, s)
      | Inr artifactId \<Rightarrow>
          (case walk artifact project host platform
                  (active_mappings (art_mappings artifact) platform) s of
             ((walked, Some e), s') \<Rightarrow> (Inl e, s')
           | ((walked, None), s') \<Rightarrow>
               (case host_writeArchive host s'
                       (join_path [project_distDir project, artifactId @ ''.zip''])
                       (concat (map snd walked)) of
                  (Some e, s'') \<Rightarrow> (Inl e, s'')
                | (None, s'') \<Rightarrow>
                    (Inr \<lparr>step_platform = platform,
                          step_id = artifactId,
                          step_walked = walked,
                          step_archive =
                            join_path [project_distDir project, artifactId @ ''.zip''],
                          step_item_platform =
                            (if platformSpecified project then Some (pi_name platform)
                             else None)\<rparr>,
                     s''))))"

text \<open>
  The loop over the platforms: the steps of the rounds that completed, and the exception
  that ended the loop, if any.
\<close>

fun platform_loop ::
  "Artifact \<Rightarrow> 'm Project \<Rightarrow> 's Host \<Rightarrow> 'm Plugin option \<Rightarrow> PlatformInfo list \<Rightarrow> 's
   \<Rightarrow> (ArtifactStep list \<times> error option) \<times> 's" where
  "platform_loop artifact project host defaultIdPlugin [] s = (([], None), s)"
| "platform_loop artifact project host defaultIdPlugin (platform # rest) s =
     (case generate_step artifact project host defaultIdPlugin platform s of
        (Inl e, s') \<Rightarrow> (([], Some e), s')
      | (Inr step, s') \<Rightarrow>
          (case platform_loop artifact project host defaultIdPlugin rest s' of
             ((steps, r), s'') \<Rightarrow> ((step # steps, r), s'')))"

text \<open>
  \<^verbatim>\<open>generate\<close>: the plugin loop, the platform loop, and the metadata file written to
  \<^verbatim>\<open>Path.join(project.distDir, `${name}.json`)\<close>.  The result holds the metadata as the
  hooks left it, the steps of the completed rounds, and the exception raised, if any
  (\<open>None\<close>: \<^verbatim>\<open>generate\<close> completed).
\<close>

definition generate ::
  "Artifact \<Rightarrow> 'm Project \<Rightarrow> 's Host \<Rightarrow> 'm \<Rightarrow> 's
   \<Rightarrow> ('m \<times> ArtifactStep list \<times> error option) \<times> 's" where
  "generate artifact project host metadata s =
     (case plugin_loop (project_plugins project) metadata None of
        (metadata', defaultIdPlugin) \<Rightarrow>
          (case platform_loop artifact project host defaultIdPlugin
                  (project_platforms project) s of
             ((steps, Some e), s') \<Rightarrow> ((metadata', steps, Some e), s')
           | ((steps, None), s') \<Rightarrow>
               (case host_writeFile host s'
                       (join_path [project_distDir project, project_name project @ ''.json'']) of
                  (r, s'') \<Rightarrow> ((metadata', steps, r), s''))))"

section \<open>The specification's wording, for comparison\<close>

text \<open>
  Right-to-left pairing of split boundaries with captures, written as an alignment: a
  list of \<open>n\<close> boundaries and a list of fillers are aligned at their right ends; missing
  fillers on the left are \<open>None\<close>, surplus fillers on the left are dropped.  A boundary
  with filler \<open>Some x\<close> gets \<open>x\<close> inserted, one with \<open>None\<close> gets nothing.
\<close>

definition align_right :: "nat \<Rightarrow> 'a option list \<Rightarrow> 'a option list" where
  "align_right n fs = replicate (n - length fs) None @ drop (length fs - n) fs"

fun fill :: "'a option \<Rightarrow> 'a \<Rightarrow> 'a list" where
  "fill None q = [q]"
| "fill (Some x) q = [x, q]"

definition fill_boundaries :: "'a list \<Rightarrow> 'a option list \<Rightarrow> 'a list" where
  "fill_boundaries parts fs =
     (case parts of
        [] \<Rightarrow> []
      | p # ps \<Rightarrow> p # concat (map2 fill (align_right (length ps) fs) ps))"

text \<open>What a popped run contributes: nothing when empty, else its segments joined.\<close>

definition run_filler :: "string list \<Rightarrow> string option" where
  "run_filler capture = (if capture = [] then None else Some (join_path capture))"

text \<open>A segment as a directory walk yields it: a file or directory name.\<close>

definition plain_segment :: "string \<Rightarrow> bool" where
  "plain_segment s = (s \<noteq> [] \<and> CHR ''/'' \<notin> set s \<and> s \<noteq> ''.'' \<and> s \<noteq> ''..'')"

text \<open>
  The precedence of platform resolution as the specification words it: \<^verbatim>\<open>platforms\<close>
  counts when it is non-empty, \<^verbatim>\<open>platform\<close> when it is set.
\<close>

definition spec_platformNames :: "PlatformSpecifier \<Rightarrow> string list option" where
  "spec_platformNames specifier =
     (case ps_platforms specifier of
        Some (n # ns) \<Rightarrow> Some (n # ns)
      | _ \<Rightarrow> map_option (\<lambda>p. [p]) (ps_platform specifier))"

definition spec_getMatchedPlatforms ::
  "string \<Rightarrow> PlatformSpecifier \<Rightarrow> PlatformInfo list \<Rightarrow> MatchedPlatformsResult" where
  "spec_getMatchedPlatforms host specifier platforms =
     (case spec_platformNames specifier of
        Some platformNames \<Rightarrow>
          \<lparr>res_platforms =
             filter (\<lambda>platform. pi_name platform \<in> set platformNames) platforms,
           res_specified = True\<rparr>
      | None \<Rightarrow>
          if ps_multiplatform specifier = Some True
          then \<lparr>res_platforms = platforms, res_specified = True\<rparr>
          else \<lparr>res_platforms = [\<lparr>pi_name = host, pi_env = None, pi_data = None\<rparr>],
                res_specified = False\<rparr>)"

text \<open>
  The renderer as the specification words it: the substitution pass, repeated \<open>n\<close> times
  on its own output.
\<close>

fun iterate_pass :: "nat \<Rightarrow> jsval \<Rightarrow> string \<Rightarrow> error + string" where
  "iterate_pass 0 data template = Inr template"
| "iterate_pass (Suc n) data template =
     (case replace_placeholders (replacer data) template of
        Inl e \<Rightarrow> Inl e
      | Inr result \<Rightarrow> iterate_pass n data result)"

text \<open>The text of a placeholder with expression \<open>e\<close>.\<close>

definition placeholder :: "string \<Rightarrow> string" where
  "placeholder e = ''{'' @ e @ ''}''"

text \<open>
  The plugins that expose a default-id generator, and the generator of the last of them.
\<close>

definition plugins_with_generator :: "'m Plugin list \<Rightarrow> 'm Plugin list" where
  "plugins_with_generator plugins = filter (\<lambda>p. getDefaultArtifactId p \<noteq> None) plugins"

definition recorded_generator :: "'m Plugin list \<Rightarrow> (PlatformInfo option \<Rightarrow> string) option" where
  "recorded_generator plugins =
     (if plugins_with_generator plugins = [] then None
      else getDefaultArtifactId (last (plugins_with_generator plugins)))"

text \<open>
  The id template in priority order: the configured id when it is a non-empty string,
  else what the recorded generator returns (for the platform when platforms are
  specified, for \<^verbatim>\<open>undefined\<close> otherwise), else one of the two literals.
\<close>

definition expected_idTemplate ::
  "string option \<Rightarrow> (PlatformInfo option \<Rightarrow> string) option \<Rightarrow> bool \<Rightarrow> PlatformInfo \<Rightarrow> string" where
  "expected_idTemplate config_id generator specified platform =
     (if truthy config_id then (case config_id of Some i \<Rightarrow> i | None \<Rightarrow> [])
      else
        (case generator of
           Some g \<Rightarrow> g (if specified then Some platform else None)
         | None \<Rightarrow> if specified then ''{name}-{platform}'' else ''{name}''))"

text \<open>
  A step as the rounds are claimed to compute it: its id is rendered from the template
  above against the object with the single property \<^verbatim>\<open>platform\<close>, the mappings gone
  through are the active ones, the archive lies in the distribution directory.
\<close>

definition step_as_expected :: "Artifact \<Rightarrow> 'm Project \<Rightarrow> ArtifactStep \<Rightarrow> bool" where
  "step_as_expected artifact project step =
     (step_id step =
        renderTemplate project
          (expected_idTemplate (cfg_id (art_config artifact))
             (recorded_generator (project_plugins project))
             (platformSpecified project) (step_platform step))
          (Some [(''platform'',
                  if platformSpecified project then DString (pi_name (step_platform step))
                  else DUndefined)])
      \<and> map fst (step_walked step)
          = active_mappings (art_mappings artifact) (step_platform step)
      \<and> step_archive step = join_path [project_distDir project, step_id step @ ''.zip'']
      \<and> step_item_platform step
          = (if platformSpecified project then Some (pi_name (step_platform step)) else None))"

text \<open>
  A host none of whose operations fails, and a project in which every dependency package
  named by an active mapping is found.
\<close>

definition host_reliable :: "'s Host \<Rightarrow> bool" where
  "host_reliable host =
     ((\<forall>s pattern baseDir. \<exists>matches s'. host_walk host s pattern baseDir = (Inr matches, s'))
      \<and> (\<forall>s file entries. \<exists>s'. host_writeArchive host s file entries = (None, s'))
      \<and> (\<forall>s file. \<exists>s'. host_writeFile host s file = (None, s')))"

definition dependencies_found :: "Artifact \<Rightarrow> 'm Project \<Rightarrow> string \<Rightarrow> bool" where
  "dependencies_found artifact project cwd =
     (\<forall>platform \<in> set (project_platforms project).
        \<forall>mapping \<in> set (active_mappings (art_mappings artifact) platform).
          \<exists>dir. resolveBaseDir artifact project cwd mapping (pi_name platform) = Inr dir)"

section \<open>Invariants of the path normaliser\<close>

text \<open>
  A segment the normaliser keeps on its stack, and the shape of the stack: \<^verbatim>\<open>..\<close>
  segments lie at the bottom only, and only for a relative path (\<open>b\<close>).
\<close>

definition clean_segment :: "string \<Rightarrow> bool" where
  "clean_segment s = (s \<noteq> [] \<and> s \<noteq> ''.'' \<and> CHR ''/'' \<notin> set s)"

definition good_stack :: "bool \<Rightarrow> string list \<Rightarrow> bool" where
  "good_stack b st =
     ((\<forall>s \<in> set st. clean_segment s)
      \<and> (\<exists>k tops. st = tops @ replicate k ''..'' \<and> ''..'' \<notin> set tops \<and> (\<not> b \<longrightarrow> k = 0)))"

section \<open>The splice loops pair boundaries and captures from the right\<close>

lemma length_align_right: "length (align_right n fs) = n"
  by (simp add: align_right_def)

lemma align_right_snoc: "align_right (Suc n) (fs @ [f]) = align_right n fs @ [f]"
  by (simp add: align_right_def)

lemma align_right_Nil: "align_right n [] = replicate n None"
  by (simp add: align_right_def)

lemma fill_boundaries_snoc:
  "L \<noteq> [] \<Longrightarrow> fill_boundaries (L @ [q]) (fs @ [f]) = fill_boundaries L fs @ fill f q"
  by (cases L) (simp_all add: fill_boundaries_def align_right_snoc length_align_right)

lemma map2_fill_None: "concat (map2 fill (replicate (length ps) None) ps) = ps"
  by (induction ps) simp_all

lemma fill_boundaries_Nil: "fill_boundaries L [] = L"
  by (cases L) (simp_all add: fill_boundaries_def align_right_Nil map2_fill_None)

lemma fill_boundaries_single: "fill_boundaries [p] fs = [p]"
  by (simp add: fill_boundaries_def)

lemma splice_stars_inv:
  "length L = Suc n \<Longrightarrow>
   splice_stars n (L @ W) cs = fill_boundaries L (map Some cs) @ W"
proof (induction n arbitrary: L W cs)
  case 0
  then obtain p where "L = [p]" by (cases L) auto
  then show ?case by (simp add: fill_boundaries_single)
next
  case (Suc n)
  then obtain L' q where L: "L = L' @ [q]" and len: "length L' = Suc n"
    by (cases L rule: rev_cases) auto
  show ?case
  proof (cases cs rule: rev_cases)
    case Nil
    then show ?thesis by (simp add: fill_boundaries_Nil)
  next
    case (snoc cs' c)
    have ne: "L' \<noteq> []" using len by auto
    have "splice_in (Suc n) c (L @ W) = L' @ (c # q # W)"
      using len by (simp add: splice_in_def L)
    then have "splice_stars (Suc n) (L @ W) cs = splice_stars n (L' @ (c # q # W)) cs'"
      by (simp add: snoc)
    also have "\<dots> = fill_boundaries L' (map Some cs') @ c # q # W"
      by (rule Suc.IH [OF len])
    also have "\<dots> = fill_boundaries L (map Some cs) @ W"
      using fill_boundaries_snoc [OF ne, of q "map Some cs'" "Some c"] by (simp add: L snoc)
    finally show ?thesis .
  qed
qed

lemma splice_globStars_inv:
  "length L = Suc n \<Longrightarrow>
   splice_globStars n (L @ W) cs = fill_boundaries L (map run_filler cs) @ W"
proof (induction n arbitrary: L W cs)
  case 0
  then obtain p where "L = [p]" by (cases L) auto
  then show ?case by (simp add: fill_boundaries_single)
next
  case (Suc n)
  then obtain L' q where L: "L = L' @ [q]" and len: "length L' = Suc n"
    by (cases L rule: rev_cases) auto
  show ?case
  proof (cases cs rule: rev_cases)
    case Nil
    then show ?thesis by (simp add: fill_boundaries_Nil)
  next
    case (snoc cs' c)
    have ne: "L' \<noteq> []" using len by auto
    have sp: "(if c \<noteq> [] then splice_in (Suc n) (join_path c) (L @ W) else L @ W)
              = L' @ (fill (run_filler c) q @ W)"
      using len by (simp add: splice_in_def L run_filler_def)
    have "splice_globStars (Suc n) (L @ W) cs
          = splice_globStars n (L' @ (fill (run_filler c) q @ W)) cs'"
      using sp by (simp add: snoc Let_def del: append_assoc)
    also have "\<dots> = fill_boundaries L' (map run_filler cs') @ fill (run_filler c) q @ W"
      by (rule Suc.IH [OF len])
    also have "\<dots> = fill_boundaries L (map run_filler cs) @ W"
      using fill_boundaries_snoc [OF ne, of q "map run_filler cs'" "run_filler c"]
      by (simp add: L snoc)
    finally show ?thesis .
  qed
qed

lemma split_scan_nonempty: "split_scan sp acc s \<noteq> []"
  by (induction sp acc s rule: split_scan.induct) auto


lemma join_with_Nil_concat: "join_with [] parts = concat parts"
  by (induction "[]::string" parts rule: join_with.induct) simp_all

lemma splice_stars_all:
  "parts \<noteq> [] \<Longrightarrow> splice_stars (length parts - 1) parts cs = fill_boundaries parts (map Some cs)"
  using splice_stars_inv [of parts "length parts - 1" "[]" cs] by (cases parts) simp_all

lemma splice_globStars_all:
  "parts \<noteq> [] \<Longrightarrow>
   splice_globStars (length parts - 1) parts cs = fill_boundaries parts (map run_filler cs)"
  using splice_globStars_inv [of parts "length parts - 1" "[]" cs] by (cases parts) simp_all

lemma fill_boundaries_short: "length parts \<le> 1 \<Longrightarrow> fill_boundaries parts fs = parts"
  by (cases parts) (simp_all add: fill_boundaries_def)

lemma stars_stage:
  "(if length (split_on sp s) > 1
    then splice_stars (length (split_on sp s) - 1) (split_on sp s) cs
    else split_on sp s) = fill_boundaries (split_on sp s) (map Some cs)"
proof -
  have ne: "split_on sp s \<noteq> []" by (simp add: split_on_def split_scan_nonempty)
  show ?thesis
    using splice_stars_all [OF ne, of cs] fill_boundaries_short [of "split_on sp s"] by auto
qed

lemma globStars_stage:
  "(if length (split_on sp s) > 1
    then splice_globStars (length (split_on sp s) - 1) (split_on sp s) cs
    else split_on sp s) = fill_boundaries (split_on sp s) (map run_filler cs)"
proof -
  have ne: "split_on sp s \<noteq> []" by (simp add: split_on_def split_scan_nonempty)
  show ?thesis
    using splice_globStars_all [OF ne, of cs] fill_boundaries_short [of "split_on sp s"] by auto
qed

lemma buildPath_fill:
  "buildPath pattern captures =
     (let parts = fill_boundaries (split_on ''**'' pattern)
                    (map run_filler (globStarsCaptures_of captures));
          parts = fill_boundaries (split_on ''*'' (concat parts))
                    (map Some (starCaptures_of captures));
          path = normalize (concat parts)
      in if \<not> startsWith pattern sep \<and> startsWith path sep then drop 1 path else path)"
  unfolding buildPath_def Let_def join_with_Nil_concat stars_stage globStars_stage ..

lemma align_right_surplus:
  "length fs \<le> n \<Longrightarrow> align_right n fs = replicate (n - length fs) None @ fs"
  by (simp add: align_right_def)

lemma map2_fill_replicate_append:
  "k \<le> length ps \<Longrightarrow>
   concat (map2 fill (replicate k None @ fs) ps) = take k ps @ concat (map2 fill fs (drop k ps))"
proof (induction k arbitrary: ps)
  case 0
  then show ?case by simp
next
  case (Suc k)
  then show ?case by (cases ps) simp_all
qed

lemma fill_boundaries_surplus:
  "length fs \<le> length ps \<Longrightarrow>
   fill_boundaries (p # ps) fs =
     p # take (length ps - length fs) ps @ concat (map2 fill fs (drop (length ps - length fs) ps))"
  by (simp add: fill_boundaries_def align_right_surplus map2_fill_replicate_append)

section \<open>Joining plain segments\<close>

lemma split_scan_slash_free:
  "CHR ''/'' \<notin> set s \<Longrightarrow> split_scan ''/'' acc (s @ rest) = split_scan ''/'' (rev s @ acc) rest"
  by (induction s arbitrary: acc) auto

lemma split_scan_join:
  "\<forall>t \<in> set (s # segs). CHR ''/'' \<notin> set t \<Longrightarrow>
   split_scan ''/'' acc (join_with ''/'' (s # segs)) = (rev acc @ s) # segs"
proof (induction segs arbitrary: s acc)
  case Nil
  then show ?case using split_scan_slash_free [of s acc "[]"] by simp
next
  case (Cons t ts)
  have "split_scan ''/'' acc (join_with ''/'' (s # t # ts))
        = split_scan ''/'' (rev s @ acc) (CHR ''/'' # join_with ''/'' (t # ts))"
    using Cons.prems split_scan_slash_free [of s acc "CHR ''/'' # join_with ''/'' (t # ts)"] by simp
  also have "\<dots> = (rev acc @ s) # split_scan ''/'' [] (join_with ''/'' (t # ts))"
    by simp
  also have "\<dots> = (rev acc @ s) # t # ts"
    using Cons.IH [of t "[]"] Cons.prems by simp
  finally show ?case .
qed

lemma foldl_normalize_step_plain:
  "\<forall>t \<in> set segs. plain_segment t \<Longrightarrow> foldl (normalize_step b) st segs = rev segs @ st"
  by (induction segs arbitrary: st) (auto simp: plain_segment_def)

lemma join_with_hd:
  "s \<noteq> [] \<Longrightarrow> join_with sp (s # segs) \<noteq> [] \<and> hd (join_with sp (s # segs)) = hd s"
  by (cases segs) auto

lemma join_with_last:
  "\<forall>t \<in> set (s # segs). t \<noteq> [] \<Longrightarrow> last (join_with sp (s # segs)) = last (last (s # segs))"
  by (induction segs arbitrary: s) (auto simp: join_with_hd)

lemma normalize_plain:
  assumes "segs \<noteq> []" and "\<forall>t \<in> set segs. plain_segment t"
  shows "normalize (join_with ''/'' segs) = join_with ''/'' segs"
proof -
  obtain s ss where segs: "segs = s # ss" using assms(1) by (cases segs) auto
  have sf: "\<forall>t \<in> set (s # ss). CHR ''/'' \<notin> set t" and ne: "\<forall>t \<in> set (s # ss). t \<noteq> []"
    using assms(2) by (auto simp: plain_segment_def segs)
  have s_ne: "s \<noteq> []" using ne by simp
  have sp: "split_on ''/'' (join_with ''/'' segs) = segs"
    using split_scan_join [OF sf, of "[]"] by (simp add: split_on_def segs)
  have ns: "normalizeString (join_with ''/'' segs) b = join_with ''/'' segs" for b
    by (simp add: normalizeString_def sp foldl_normalize_step_plain [OF assms(2)])
  have nonempty: "join_with ''/'' segs \<noteq> []" using join_with_hd [OF s_ne] segs by simp
  have "hd (join_with ''/'' segs) = hd s" using join_with_hd [OF s_ne] segs by simp
  moreover have "hd s \<in> set s" using s_ne by simp
  ultimately have h: "hd (join_with ''/'' segs) \<noteq> CHR ''/''" using sf by auto
  have "last (join_with ''/'' segs) = last (last segs)" using join_with_last [OF ne] segs by simp
  moreover have "last segs \<in> set segs" using assms(1) by simp
  moreover have "last (last segs) \<in> set (last segs)"
    using ne segs \<open>last segs \<in> set segs\<close> by auto
  ultimately have l: "last (join_with ''/'' segs) \<noteq> CHR ''/''" using sf segs by auto
  show ?thesis using nonempty h l by (simp add: normalize_def ns Let_def)
qed

lemma join_path_plain:
  "capture \<noteq> [] \<Longrightarrow> \<forall>t \<in> set capture. plain_segment t \<Longrightarrow>
   join_path capture = join_with ''/'' capture"
proof -
  assume a: "capture \<noteq> []" "\<forall>t \<in> set capture. plain_segment t"
  then have "filter (\<lambda>a. a \<noteq> []) capture = capture"
    by (auto simp: plain_segment_def filter_id_conv)
  then show ?thesis using a normalize_plain [OF a] by (simp add: join_path_def)
qed

section \<open>Destination paths rebuilt from captures\<close>

text \<open>
  C1.  Splicing the capture of \<^verbatim>\<open>src/*/file.js\<close> on \<^verbatim>\<open>src/foo/file.js\<close> into
  \<^verbatim>\<open>dist/*/out.js\<close> gives \<^verbatim>\<open>dist/foo/out.js\<close>, and splicing the captures of
  \<^verbatim>\<open>src/**/*.js\<close> on \<^verbatim>\<open>src/a/b/c.js\<close> into \<^verbatim>\<open>lib/**/*.js\<close> gives
  \<^verbatim>\<open>lib/a/b/c.js\<close>.
\<close>

theorem buildPath_round_trips:
  "buildPath ''dist/*/out.js'' [Segment ''foo''] = ''dist/foo/out.js''
   \<and> buildPath ''lib/**/*.js'' [SegmentRun [''a'', ''b''], Segment ''c''] = ''lib/a/b/c.js''"
  by code_simp

text \<open>
  C8.  \<^verbatim>\<open>buildPath\<close> pairs wildcards with captures from the right, in two stages.
  The pattern is split on \<^verbatim>\<open>**\<close>; the boundaries and the segment runs are aligned at
  their right ends, and a boundary receives the joined segments of its run when the run
  is not empty (for segments that are plain names, joined by the separator).  The
  rejoined string is split on \<^verbatim>\<open>*\<close> and the boundaries receive the single-segment
  captures in the same way.  With fewer captures than boundaries, the leftmost surplus
  boundaries receive nothing (the parts on both sides are put together as they are) and
  the last boundary receives the last capture.  The function has no failing branch.
\<close>

theorem buildPath_right_to_left:
  "buildPath pattern captures =
     (let parts = fill_boundaries (split_on ''**'' pattern)
                    (map run_filler (globStarsCaptures_of captures));
          parts = fill_boundaries (split_on ''*'' (concat parts))
                    (map Some (starCaptures_of captures));
          path = normalize (concat parts)
      in if \<not> startsWith pattern sep \<and> startsWith path sep then drop 1 path else path)
   \<and> (length fs \<le> length ps \<longrightarrow>
        fill_boundaries (p # ps) fs =
          p # take (length ps - length fs) ps
            @ concat (map2 fill fs (drop (length ps - length fs) ps)))
   \<and> run_filler [] = None
   \<and> (run \<noteq> [] \<and> list_all plain_segment run \<longrightarrow>
        run_filler run = Some (join_with ''/'' run))"
proof (intro conjI impI)
  show "buildPath pattern captures =
     (let parts = fill_boundaries (split_on ''**'' pattern)
                    (map run_filler (globStarsCaptures_of captures));
          parts = fill_boundaries (split_on ''*'' (concat parts))
                    (map Some (starCaptures_of captures));
          path = normalize (concat parts)
      in if \<not> startsWith pattern sep \<and> startsWith path sep then drop 1 path else path)"
    by (rule buildPath_fill)
next
  assume "length fs \<le> length ps"
  then show "fill_boundaries (p # ps) fs =
          p # take (length ps - length fs) ps
            @ concat (map2 fill fs (drop (length ps - length fs) ps))"
    by (rule fill_boundaries_surplus)
next
  show "run_filler [] = None" by (simp add: run_filler_def)
next
  assume "run \<noteq> [] \<and> list_all plain_segment run"
  then show "run_filler run = Some (join_with ''/'' run)"
    using join_path_plain [of run] by (simp add: run_filler_def list_all_iff)
qed

theorem buildPath_right_to_left_witness:
  "buildPath ''a/**/b/**/c'' [SegmentRun [''x'', ''y'']] = ''a/b/x/y/c''
   \<and> buildPath ''a/*/b/*/c'' [Segment ''x''] = ''a/b/x/c''
   \<and> length [Some ''x''] \<le> length [''/b/'', ''/c'']
   \<and> fill_boundaries [''a/'', ''/b/'', ''/c''] [Some ''x''] = [''a/'', ''/b/'', ''x'', ''/c'']
   \<and> list_all plain_segment [''x'', ''y'']
   \<and> run_filler [''x'', ''y''] = Some ''x/y''"
proof -
  have 1: "buildPath ''a/**/b/**/c'' [SegmentRun [''x'', ''y'']] = ''a/b/x/y/c''"
    by code_simp
  have 2: "buildPath ''a/*/b/*/c'' [Segment ''x''] = ''a/b/x/c''"
    by code_simp
  have 3: "list_all plain_segment [''x'', ''y'']"
    by (simp add: plain_segment_def)
  note t = buildPath_right_to_left
    [of "''a/**/b/**/c''" "[SegmentRun [''x'', ''y'']]" "[Some ''x'']" "[''/b/'', ''/c'']"
        "''a/''" "[''x'', ''y'']"]
  from t have 4: "fill_boundaries [''a/'', ''/b/'', ''/c''] [Some ''x'']
                  = [''a/'', ''/b/'', ''x'', ''/c'']"
    by simp
  from t 3 have 5: "run_filler [''x'', ''y''] = Some ''x/y''"
    by simp
  from 1 2 3 4 5 show ?thesis by simp
qed

section \<open>The renderer iterates to a fixed point\<close>

lemma iterate_pass_fixed:
  "replace_placeholders (replacer data) t = Inr t \<Longrightarrow> iterate_pass n data t = Inr t"
  by (induction n) simp_all

lemma render_of_iterate:
  "iterate_pass n data t = Inr r \<Longrightarrow> replace_placeholders (replacer data) r = Inr r \<Longrightarrow>
   render t data = Some (Inr r)"
proof (induction n arbitrary: t)
  case 0
  then show ?case by (simp add: render.simps)
next
  case (Suc n)
  then obtain t' where p: "replace_placeholders (replacer data) t = Inr t'"
    and it: "iterate_pass n data t' = Inr r"
    by (auto split: sum.splits)
  show ?case
  proof (cases "t' = t")
    case True
    then have "iterate_pass n data t' = Inr t" using p iterate_pass_fixed by simp
    then have "r = t" using it by simp
    then show ?thesis using p True by (simp add: render.simps)
  next
    case False
    have "render t data = render t' data" using p False by (subst render.simps) simp
    then show ?thesis using Suc.IH [OF it Suc.prems(2)] by simp
  qed
qed

lemma iterate_of_render:
  assumes "render t data = Some res"
  shows "\<forall>r. res = Inr r \<longrightarrow>
     (\<exists>n. iterate_pass n data t = Inr r) \<and> replace_placeholders (replacer data) r = Inr r"
  using assms
proof (induct rule: render.raw_induct [rotated 1, consumes 1])
  case (1 rf template data res)
  show ?case
  proof (intro allI impI)
    fix r assume res: "res = Inr r"
    show "(\<exists>n. iterate_pass n data template = Inr r)
          \<and> replace_placeholders (replacer data) r = Inr r"
    proof (cases "replace_placeholders (replacer data) template")
      case (Inl e)
      then show ?thesis using 1(2) res by simp
    next
      case (Inr t')
      show ?thesis
      proof (cases "t' = template")
        case True
        then have "r = template" using 1(2) res Inr by simp
        moreover have "iterate_pass 0 data template = Inr template" by simp
        ultimately show ?thesis using Inr True by blast
      next
        case False
        then have a: "rf t' data = Some res" using 1(2) Inr by simp
        from 1(1) [OF a] res obtain n where
          n: "iterate_pass n data t' = Inr r" and
          fx: "replace_placeholders (replacer data) r = Inr r" by blast
        have "iterate_pass (Suc n) data template = Inr r" using n Inr by simp
        then show ?thesis using fx by blast
      qed
    qed
  qed
qed

lemma render_idempotent:
  "render t data = Some (Inr r) \<Longrightarrow> render r data = Some (Inr r)"
  using iterate_of_render [of t data "Inr r"] by (subst render.simps) simp

text \<open>
  C2.  \<^verbatim>\<open>render\<close> returns \<open>r\<close> exactly when repeating the substitution pass on the
  template reaches \<open>r\<close> and a further pass leaves \<open>r\<close> unchanged; rendering a returned
  result again returns it unchanged; and the chained placeholders of
  \<^verbatim>\<open>render("{a}", {a: "{b}", b: "x"})\<close> resolve to \<^verbatim>\<open>x\<close>.
\<close>

theorem render_fixed_point:
  "(render t data = Some (Inr r) \<longleftrightarrow>
      (\<exists>n. iterate_pass n data t = Inr r) \<and> replace_placeholders (replacer data) r = Inr r)
   \<and> (render t data = Some (Inr r) \<longrightarrow> render r data = Some (Inr r))
   \<and> render ''{a}'' (js_object [(''a'', js_string ''{b}''), (''b'', js_string ''x'')])
       = Some (Inr ''x'')"
proof -
  have a: "render t data = Some (Inr r) \<longleftrightarrow>
      (\<exists>n. iterate_pass n data t = Inr r) \<and> replace_placeholders (replacer data) r = Inr r"
    using iterate_of_render [of t data "Inr r"] render_of_iterate [of _ data t r] by blast
  have b: "render t data = Some (Inr r) \<longrightarrow> render r data = Some (Inr r)"
    using render_idempotent by blast
  have c: "render ''{a}'' (js_object [(''a'', js_string ''{b}''), (''b'', js_string ''x'')])
        = Some (Inr ''x'')"
    by code_simp
  from a b c show ?thesis by blast
qed

theorem render_fixed_point_witness:
  "render ''{a}{c}'' (js_object [(''a'', js_string ''{b}''), (''b'', js_string ''x'')])
     = Some (Inr ''x{c}'')
   \<and> render ''x{c}'' (js_object [(''a'', js_string ''{b}''), (''b'', js_string ''x'')])
     = Some (Inr ''x{c}'')
   \<and> (\<exists>n. iterate_pass n (js_object [(''a'', js_string ''{b}''), (''b'', js_string ''x'')])
             ''{a}{c}'' = Inr ''x{c}'')"
proof -
  let ?d = "js_object [(''a'', js_string ''{b}''), (''b'', js_string ''x'')]"
  have 1: "render ''{a}{c}'' ?d = Some (Inr ''x{c}'')" by code_simp
  from render_fixed_point [of "''{a}{c}''" ?d "''x{c}''"] 1 show ?thesis by blast
qed

section \<open>A placeholder whose lookup misses stays in place\<close>

lemma takeWhile_run_end:
  "dropWhile P cs = [] \<Longrightarrow> \<not> P x \<Longrightarrow>
   takeWhile P (cs @ x # rest) = cs \<and> dropWhile P (cs @ x # rest) = x # rest"
  by (induction cs) (auto split: if_splits)

lemma takeWhile_run_inside:
  "dropWhile P cs \<noteq> [] \<Longrightarrow>
   takeWhile P (cs @ rest) = takeWhile P cs \<and> dropWhile P (cs @ rest) = dropWhile P cs @ rest"
  by (induction cs) (auto split: if_splits)

lemma brace_not_expr_char: "\<not> expr_char CHR ''{''" "\<not> expr_char CHR ''}''"
  by (simp_all add: expr_char_def)

lemma seq_result_assoc:
  "seq_result (seq_result a b) c = seq_result a (seq_result b c)"
  by (simp add: seq_result_def split: sum.splits)

lemma seq_result_Nil: "seq_result (Inr []) r = r" "seq_result r (Inr []) = r"
  by (simp_all add: seq_result_def split: sum.splits)

lemma replace_placeholders_at_placeholder:
  assumes "e \<noteq> []" "list_all expr_char e"
  shows "replace_placeholders f (placeholder e @ post) =
         seq_result (f (placeholder e) e) (replace_placeholders f post)"
proof -
  have d: "dropWhile expr_char e = []" using assms(2) by (simp add: list_all_iff)
  have "takeWhile expr_char (e @ CHR ''}'' # post) = e
        \<and> dropWhile expr_char (e @ CHR ''}'' # post) = CHR ''}'' # post"
    using takeWhile_run_end [OF d brace_not_expr_char(2)] by simp
  then show ?thesis using assms(1) by (simp add: placeholder_def)
qed

lemma replace_placeholders_append:
  assumes "e \<noteq> []" "list_all expr_char e"
  shows "replace_placeholders f (pre @ placeholder e @ post) =
         seq_result (replace_placeholders f pre) (replace_placeholders f (placeholder e @ post))"
proof (induction f pre rule: replace_placeholders.induct)
  case (1 f)
  show ?case by (simp add: seq_result_Nil)
next
  case (2 f c cs)
  let ?rest = "placeholder e @ post"
  let ?m = "c = CHR ''{'' \<and> takeWhile expr_char cs \<noteq> []
            \<and> take (Suc 0) (dropWhile expr_char cs) = ''}''"
  have rest: "?rest = CHR ''{'' # e @ CHR ''}'' # post" by (simp add: placeholder_def)
  show ?case
  proof (cases ?m)
    case True
    then have ne: "dropWhile expr_char cs \<noteq> []"
      by (auto simp del: dropWhile_eq_Nil_conv)
    have tw: "takeWhile expr_char (cs @ ?rest) = takeWhile expr_char cs"
      and dw: "dropWhile expr_char (cs @ ?rest) = dropWhile expr_char cs @ ?rest"
      using takeWhile_run_inside [OF ne] by auto
    have dr: "drop (Suc 0) (dropWhile expr_char cs @ ?rest)
              = drop (Suc 0) (dropWhile expr_char cs) @ ?rest"
      using ne by (cases "dropWhile expr_char cs") auto
    have tk: "take (Suc 0) (dropWhile expr_char cs @ ?rest)
              = take (Suc 0) (dropWhile expr_char cs)"
      using ne by (cases "dropWhile expr_char cs") auto
    have big: "replace_placeholders f ((c # cs) @ ?rest) =
          seq_result (f (c # takeWhile expr_char cs @ ''}'') (takeWhile expr_char cs))
            (replace_placeholders f (drop (Suc 0) (dropWhile expr_char cs) @ ?rest))"
      using True by (simp add: tw dw tk dr del: take_append drop_append)
    have small: "replace_placeholders f (c # cs) =
          seq_result (f (c # takeWhile expr_char cs @ ''}'') (takeWhile expr_char cs))
            (replace_placeholders f (drop (Suc 0) (dropWhile expr_char cs)))"
      using True by simp
    have ih: "replace_placeholders f (drop (Suc 0) (dropWhile expr_char cs) @ ?rest) =
          seq_result (replace_placeholders f (drop (Suc 0) (dropWhile expr_char cs)))
            (replace_placeholders f ?rest)"
      using 2(1) True by simp
    show ?thesis unfolding big small ih by (simp only: seq_result_assoc)
  next
    case False
    have nm: "\<not> (c = CHR ''{'' \<and> takeWhile expr_char (cs @ ?rest) \<noteq> []
                 \<and> take (Suc 0) (dropWhile expr_char (cs @ ?rest)) = ''}'')"
    proof (cases "dropWhile expr_char cs = []")
      case True
      have "dropWhile expr_char (cs @ ?rest) = ?rest"
        using takeWhile_run_end [OF True brace_not_expr_char(1), of "e @ CHR ''}'' # post"]
        by (simp add: rest)
      then show ?thesis by (simp add: rest)
    next
      case ne: False
      have "takeWhile expr_char (cs @ ?rest) = takeWhile expr_char cs"
        and "dropWhile expr_char (cs @ ?rest) = dropWhile expr_char cs @ ?rest"
        using takeWhile_run_inside [OF ne] by auto
      moreover have "take (Suc 0) (dropWhile expr_char cs @ ?rest)
                     = take (Suc 0) (dropWhile expr_char cs)"
        using ne by (cases "dropWhile expr_char cs") auto
      ultimately show ?thesis using False by (simp del: take_append drop_append)
    qed
    have big: "replace_placeholders f ((c # cs) @ ?rest) =
          seq_result (Inr [c]) (replace_placeholders f (cs @ ?rest))"
      using nm by auto
    have small: "replace_placeholders f (c # cs) =
          seq_result (Inr [c]) (replace_placeholders f cs)"
      using False by auto
    have ih: "replace_placeholders f (cs @ ?rest) =
          seq_result (replace_placeholders f cs) (replace_placeholders f ?rest)"
      using 2(2) False by simp
    show ?thesis unfolding big small ih by (simp only: seq_result_assoc)
  qed
qed

lemma replace_placeholders_no_brace:
  "CHR ''{'' \<notin> set s \<Longrightarrow> replace_placeholders f s = Inr s"
  by (induction s) (auto simp: seq_result_def)

lemma replacer_miss:
  "lookup_keys data (split_on ''.'' e) = Inr None \<Longrightarrow> replacer data text e = Inr text"
  by (simp add: replacer_def)

lemma pass_keeps_placeholder:
  assumes "e \<noteq> []" "list_all expr_char e"
    and miss: "lookup_keys data (split_on ''.'' e) = Inr None"
    and pass: "replace_placeholders (replacer data) (pre @ placeholder e @ post) = Inr out"
  shows "\<exists>pre' post'. out = pre' @ placeholder e @ post'"
proof -
  have "seq_result (replace_placeholders (replacer data) pre)
          (seq_result (Inr (placeholder e)) (replace_placeholders (replacer data) post)) = Inr out"
    using pass replace_placeholders_append [OF assms(1,2)]
      replace_placeholders_at_placeholder [OF assms(1,2)] replacer_miss [OF miss]
    by simp
  then show ?thesis by (auto simp: seq_result_def split: sum.splits)
qed

lemma render_keeps_placeholder:
  assumes r: "render t data = Some res"
    and e: "e \<noteq> []" "list_all expr_char e"
    and miss: "lookup_keys data (split_on ''.'' e) = Inr None"
  shows "\<forall>pre post out. t = pre @ placeholder e @ post \<longrightarrow> res = Inr out \<longrightarrow>
      (\<exists>pre' post'. out = pre' @ placeholder e @ post')"
  using r miss
proof (induct rule: render.raw_induct [rotated 1, consumes 1])
  case (1 rf template data res)
  show ?case
  proof (intro allI impI)
    fix pre post out
    assume t: "template = pre @ placeholder e @ post" and res: "res = Inr out"
    show "\<exists>pre' post'. out = pre' @ placeholder e @ post'"
    proof (cases "replace_placeholders (replacer data) template")
      case (Inl err)
      then show ?thesis using 1(2) res by simp
    next
      case (Inr t')
      obtain a b where t': "t' = a @ placeholder e @ b"
        using pass_keeps_placeholder [OF e 1(3)] Inr t by blast
      show ?thesis
      proof (cases "t' = template")
        case True
        then have "out = template" using 1(2) res Inr by simp
        then show ?thesis using t by blast
      next
        case False
        then have a: "rf t' data = Some res" using 1(2) Inr by simp
        from 1(1) [OF a 1(3)] t' res show ?thesis by blast
      qed
    qed
  qed
qed


lemma replace_placeholders_identity:
  "\<forall>text e. f text e = Inr text \<Longrightarrow> replace_placeholders f s = Inr s"
proof (induction f s rule: replace_placeholders.induct)
  case (1 f)
  show ?case by simp
next
  case (2 f c cs)
  let ?m = "c = CHR ''{'' \<and> takeWhile expr_char cs \<noteq> []
            \<and> take (Suc 0) (dropWhile expr_char cs) = ''}''"
  show ?case
  proof (cases ?m)
    case True
    then have dw: "dropWhile expr_char cs = ''}'' @ drop (Suc 0) (dropWhile expr_char cs)"
      by (metis append_take_drop_id)
    have "takeWhile expr_char cs @ dropWhile expr_char cs = cs" by simp
    then have cs: "takeWhile expr_char cs @ ''}'' @ drop (Suc 0) (dropWhile expr_char cs) = cs"
      using dw by metis
    have ih: "replace_placeholders f (drop (Suc 0) (dropWhile expr_char cs))
              = Inr (drop (Suc 0) (dropWhile expr_char cs))"
    proof -
      have m: "c = CHR ''{'' \<and> takeWhile expr_char cs \<noteq> []
               \<and> take 1 (dropWhile expr_char cs) = ''}''"
        using True by simp
      show ?thesis using 2(1) [OF m "2.prems"] by (simp only: One_nat_def)
    qed
    have "replace_placeholders f (c # cs) =
          seq_result (f (c # takeWhile expr_char cs @ ''}'') (takeWhile expr_char cs))
            (replace_placeholders f (drop (Suc 0) (dropWhile expr_char cs)))"
      using True by simp
    also have "\<dots> = Inr ((c # takeWhile expr_char cs @ ''}'')
                        @ drop (Suc 0) (dropWhile expr_char cs))"
      using "2.prems" by (simp add: ih seq_result_def)
    also have "\<dots> = Inr (c # cs)" using cs by simp
    finally show ?thesis .
  next
    case False
    have ih: "replace_placeholders f cs = Inr cs"
    proof -
      have m: "\<not> (c = CHR ''{'' \<and> takeWhile expr_char cs \<noteq> []
               \<and> take 1 (dropWhile expr_char cs) = ''}'')"
        using False by simp
      show ?thesis by (rule 2(2) [OF m "2.prems"])
    qed
    have "replace_placeholders f (c # cs) = seq_result (Inr [c]) (replace_placeholders f cs)"
      using False by auto
    then show ?thesis by (simp add: ih seq_result_def)
  qed
qed

lemma split_on_nonempty: "split_on sp s \<noteq> []"
  by (simp add: split_on_def split_scan_nonempty)

lemma replacer_no_properties:
  assumes "\<forall>key. props key = JUndefined"
  shows "replacer (JValue str props) text e = Inr text"
proof -
  obtain k ks where "split_on ''.'' e = k # ks"
    using split_on_nonempty [of "''.''" e] by (cases "split_on ''.'' e") auto
  then show ?thesis using assms by (simp add: replacer_def)
qed

lemma render_no_properties:
  assumes "\<forall>key. props key = JUndefined"
  shows "render template (JValue str props) = Some (Inr template)"
  using replace_placeholders_identity [of "replacer (JValue str props)" template]
  by (subst render.simps) (simp add: replacer_no_properties [OF assms])

text \<open>
  C3.  When the key path of an expression reaches \<^verbatim>\<open>undefined\<close>, at its first key or at
  a later one, the callback returns the placeholder's own text and raises nothing; a
  template that contains such a placeholder still contains it in whatever \<^verbatim>\<open>render\<close>
  returns; when it is the only placeholder, \<^verbatim>\<open>render\<close> returns the template itself.
  Against a value that answers \<^verbatim>\<open>undefined\<close> under every key (an object without own
  and without inherited properties) \<^verbatim>\<open>render\<close> returns every template unchanged.  The
  object literal \<^verbatim>\<open>{}\<close> is not such a value, it inherits the properties of
  \<^verbatim>\<open>Object.prototype\<close>; \<^verbatim>\<open>missing\<close> is not among them, and
  \<^verbatim>\<open>render("{missing}", {})\<close> is \<^verbatim>\<open>{missing}\<close>.
\<close>

theorem render_lookup_miss:
  "(lookup_keys data (split_on ''.'' e) = Inr None \<longrightarrow> replacer data text e = Inr text)
   \<and> (e \<noteq> [] \<and> list_all expr_char e \<and> lookup_keys data (split_on ''.'' e) = Inr None
        \<and> render (pre @ placeholder e @ post) data = Some (Inr out)
      \<longrightarrow> (\<exists>pre' post'. out = pre' @ placeholder e @ post'))
   \<and> (e \<noteq> [] \<and> list_all expr_char e \<and> lookup_keys data (split_on ''.'' e) = Inr None
        \<and> CHR ''{'' \<notin> set pre \<and> CHR ''{'' \<notin> set post
      \<longrightarrow> render (pre @ placeholder e @ post) data = Some (Inr (pre @ placeholder e @ post)))
   \<and> ((\<forall>key. props key = JUndefined)
      \<longrightarrow> render template (JValue str props) = Some (Inr template))
   \<and> render ''{missing}'' (js_object []) = Some (Inr ''{missing}'')"
proof (intro conjI impI)
  assume "lookup_keys data (split_on ''.'' e) = Inr None"
  then show "replacer data text e = Inr text" by (rule replacer_miss)
next
  assume a: "e \<noteq> [] \<and> list_all expr_char e \<and> lookup_keys data (split_on ''.'' e) = Inr None
        \<and> render (pre @ placeholder e @ post) data = Some (Inr out)"
  then show "\<exists>pre' post'. out = pre' @ placeholder e @ post'"
    using render_keeps_placeholder [of "pre @ placeholder e @ post" data "Inr out" e] by blast
next
  assume a: "e \<noteq> [] \<and> list_all expr_char e \<and> lookup_keys data (split_on ''.'' e) = Inr None
        \<and> CHR ''{'' \<notin> set pre \<and> CHR ''{'' \<notin> set post"
  then have "replace_placeholders (replacer data) (pre @ placeholder e @ post)
             = Inr (pre @ placeholder e @ post)"
    using replace_placeholders_append [of e "replacer data" pre post]
      replace_placeholders_at_placeholder [of e "replacer data" post]
      replace_placeholders_no_brace [of pre "replacer data"]
      replace_placeholders_no_brace [of post "replacer data"]
      replacer_miss [of data e "placeholder e"]
    by (simp add: seq_result_def)
  then show "render (pre @ placeholder e @ post) data = Some (Inr (pre @ placeholder e @ post))"
    by (subst render.simps) simp
next
  assume "\<forall>key. props key = JUndefined"
  then show "render template (JValue str props) = Some (Inr template)"
    by (rule render_no_properties)
next
  show "render ''{missing}'' (js_object []) = Some (Inr ''{missing}'')" by code_simp
qed

theorem render_lookup_miss_witness:
  "lookup_keys (js_object [(''a'', js_string ''v'')]) (split_on ''.'' ''b.c'') = Inr None
   \<and> replacer (js_object [(''a'', js_string ''v'')]) ''{b.c}'' ''b.c'' = Inr ''{b.c}''
   \<and> render ''{a}-{b.c}'' (js_object [(''a'', js_string ''v'')]) = Some (Inr ''v-{b.c}'')
   \<and> (\<exists>pre' post'. ''v-{b.c}'' = pre' @ placeholder ''b.c'' @ post')
   \<and> render ''<{b.c}>'' (js_object [(''a'', js_string ''v'')]) = Some (Inr ''<{b.c}>'')
   \<and> lookup_keys (js_object [(''a'', js_object [(''b'', js_string ''v'')])])
        (split_on ''.'' ''a.c'') = Inr None
   \<and> replacer (js_object [(''a'', js_object [(''b'', js_string ''v'')])]) ''{a.c}'' ''a.c''
       = Inr ''{a.c}''
   \<and> render ''{a.b}-{a.c}'' (js_object [(''a'', js_object [(''b'', js_string ''v'')])])
       = Some (Inr ''v-{a.c}'')
   \<and> (\<exists>pre' post'. ''v-{a.c}'' = pre' @ placeholder ''a.c'' @ post')
   \<and> render ''<{a.c}>'' (js_object [(''a'', js_object [(''b'', js_string ''v'')])])
       = Some (Inr ''<{a.c}>'')
   \<and> render ''{x}-{y.z}'' (JValue (Inl TypeError) (\<lambda>key. JUndefined))
       = Some (Inr ''{x}-{y.z}'')"
proof -
  let ?d = "js_object [(''a'', js_string ''v'')]"
  have m: "lookup_keys ?d (split_on ''.'' ''b.c'') = Inr None"
    by (simp add: split_on_def js_object_def js_string_def)
  have r: "render (''{a}-'' @ placeholder ''b.c'' @ []) ?d = Some (Inr ''v-{b.c}'')"
    unfolding placeholder_def by code_simp
  have e: "''b.c'' \<noteq> [] \<and> list_all expr_char ''b.c''" by (simp add: expr_char_def)
  note t1 = render_lookup_miss [of ?d "''b.c''" "''{b.c}''" "''{a}-''" "[]" "''v-{b.c}''"]
  note t2 = render_lookup_miss [of ?d "''b.c''" "''{b.c}''" "''<''" "''>''" "''v-{b.c}''"]
  have 2: "replacer ?d ''{b.c}'' ''b.c'' = Inr ''{b.c}''" using t1 m by blast
  have 3: "\<exists>pre' post'. ''v-{b.c}'' = pre' @ placeholder ''b.c'' @ post'"
    using t1 m r e by blast
  have "render (''<'' @ placeholder ''b.c'' @ ''>'') ?d
        = Some (Inr (''<'' @ placeholder ''b.c'' @ ''>''))"
    using t2 m e by simp
  then have 4: "render ''<{b.c}>'' ?d = Some (Inr ''<{b.c}>'')" by (simp add: placeholder_def)
  let ?n = "js_object [(''a'', js_object [(''b'', js_string ''v'')])]"
  have m': "lookup_keys ?n (split_on ''.'' ''a.c'') = Inr None"
    by (simp add: split_on_def js_object_def js_string_def)
  have r': "render (''{a.b}-'' @ placeholder ''a.c'' @ []) ?n = Some (Inr ''v-{a.c}'')"
    unfolding placeholder_def by code_simp
  have e': "''a.c'' \<noteq> [] \<and> list_all expr_char ''a.c''" by (simp add: expr_char_def)
  note u1 = render_lookup_miss [of ?n "''a.c''" "''{a.c}''" "''{a.b}-''" "[]" "''v-{a.c}''"]
  note u2 = render_lookup_miss [of ?n "''a.c''" "''{a.c}''" "''<''" "''>''" "''v-{a.c}''"]
  have 5: "replacer ?n ''{a.c}'' ''a.c'' = Inr ''{a.c}''" using u1 m' by blast
  have 6: "\<exists>pre' post'. ''v-{a.c}'' = pre' @ placeholder ''a.c'' @ post'"
    using u1 m' r' e' by blast
  have "render (''<'' @ placeholder ''a.c'' @ ''>'') ?n
        = Some (Inr (''<'' @ placeholder ''a.c'' @ ''>''))"
    using u2 m' e' by simp
  then have 7: "render ''<{a.c}>'' ?n = Some (Inr ''<{a.c}>'')" by (simp add: placeholder_def)
  have 8: "render ''{x}-{y.z}'' (JValue (Inl TypeError) (\<lambda>key. JUndefined))
           = Some (Inr ''{x}-{y.z}'')"
    using render_lookup_miss [where props = "\<lambda>key. JUndefined" and str = "Inl TypeError"
        and template = "''{x}-{y.z}''"]
    by simp
  have r0: "render ''{a}-{b.c}'' ?d = Some (Inr ''v-{b.c}'')"
    using r by (simp add: placeholder_def)
  have r0': "render ''{a.b}-{a.c}'' ?n = Some (Inr ''v-{a.c}'')"
    using r' by (simp add: placeholder_def)
  from m 2 3 4 r0 m' 5 6 7 r0' 8 show ?thesis by blast
qed

section \<open>Platform resolution\<close>

text \<open>
  C4, as the code has it.  A \<^verbatim>\<open>platforms\<close> array that is present decides, even when it
  is empty; otherwise a \<^verbatim>\<open>platform\<close> that is a non-empty string decides; otherwise
  \<^verbatim>\<open>multiplatform\<close>; otherwise the host platform alone is returned, unspecified.  The
  filter keeps the order of the platform list.  Where \<^verbatim>\<open>platforms\<close> is not the empty
  array and \<^verbatim>\<open>platform\<close> is not the empty string, this is the precedence of the
  specification.
\<close>

theorem getMatchedPlatforms_precedence:
  "(ps_platforms specifier = Some names \<longrightarrow>
      getMatchedPlatforms host specifier platforms =
        \<lparr>res_platforms = filter (\<lambda>p. pi_name p \<in> set names) platforms,
         res_specified = True\<rparr>)
   \<and> (ps_platforms specifier = None \<and> ps_platform specifier = Some name \<and> name \<noteq> [] \<longrightarrow>
      getMatchedPlatforms host specifier platforms =
        \<lparr>res_platforms = filter (\<lambda>p. pi_name p \<in> {name}) platforms,
         res_specified = True\<rparr>)
   \<and> (ps_platforms specifier = None \<and> \<not> truthy (ps_platform specifier)
        \<and> ps_multiplatform specifier = Some True \<longrightarrow>
      getMatchedPlatforms host specifier platforms =
        \<lparr>res_platforms = platforms, res_specified = True\<rparr>)
   \<and> (ps_platforms specifier = None \<and> \<not> truthy (ps_platform specifier)
        \<and> ps_multiplatform specifier \<noteq> Some True \<longrightarrow>
      getMatchedPlatforms host specifier platforms =
        \<lparr>res_platforms = [\<lparr>pi_name = host, pi_env = None, pi_data = None\<rparr>],
         res_specified = False\<rparr>)
   \<and> (ps_platforms specifier \<noteq> Some [] \<and> ps_platform specifier \<noteq> Some [] \<longrightarrow>
      getMatchedPlatforms host specifier platforms =
        spec_getMatchedPlatforms host specifier platforms)"
  by (auto simp: getMatchedPlatforms_def spec_getMatchedPlatforms_def platformNames_of_def
      spec_platformNames_def truthy_def split: option.splits list.splits)

theorem getMatchedPlatforms_precedence_witness:
  "getMatchedPlatforms ''darwin''
     \<lparr>ps_multiplatform = None, ps_platform = Some ''win32'', ps_platforms = Some [''linux'', ''darwin'']\<rparr>
     [\<lparr>pi_name = ''darwin'', pi_env = None, pi_data = None\<rparr>,
      \<lparr>pi_name = ''win32'', pi_env = None, pi_data = None\<rparr>,
      \<lparr>pi_name = ''linux'', pi_env = None, pi_data = None\<rparr>]
     = \<lparr>res_platforms = [\<lparr>pi_name = ''darwin'', pi_env = None, pi_data = None\<rparr>,
                         \<lparr>pi_name = ''linux'', pi_env = None, pi_data = None\<rparr>],
        res_specified = True\<rparr>
   \<and> getMatchedPlatforms ''darwin''
     \<lparr>ps_multiplatform = Some True, ps_platform = Some ''win32'', ps_platforms = None\<rparr>
     [\<lparr>pi_name = ''darwin'', pi_env = None, pi_data = None\<rparr>,
      \<lparr>pi_name = ''win32'', pi_env = None, pi_data = None\<rparr>]
     = \<lparr>res_platforms = [\<lparr>pi_name = ''win32'', pi_env = None, pi_data = None\<rparr>],
        res_specified = True\<rparr>
   \<and> getMatchedPlatforms ''darwin''
     \<lparr>ps_multiplatform = Some True, ps_platform = None, ps_platforms = None\<rparr>
     [\<lparr>pi_name = ''linux'', pi_env = None, pi_data = None\<rparr>,
      \<lparr>pi_name = ''win32'', pi_env = None, pi_data = None\<rparr>]
     = \<lparr>res_platforms = [\<lparr>pi_name = ''linux'', pi_env = None, pi_data = None\<rparr>,
                         \<lparr>pi_name = ''win32'', pi_env = None, pi_data = None\<rparr>],
        res_specified = True\<rparr>
   \<and> getMatchedPlatforms ''darwin''
     \<lparr>ps_multiplatform = None, ps_platform = None, ps_platforms = None\<rparr>
     [\<lparr>pi_name = ''linux'', pi_env = None, pi_data = None\<rparr>]
     = \<lparr>res_platforms = [\<lparr>pi_name = ''darwin'', pi_env = None, pi_data = None\<rparr>],
        res_specified = False\<rparr>
   \<and> spec_getMatchedPlatforms ''darwin''
     \<lparr>ps_multiplatform = None, ps_platform = None, ps_platforms = None\<rparr>
     [\<lparr>pi_name = ''linux'', pi_env = None, pi_data = None\<rparr>]
     = \<lparr>res_platforms = [\<lparr>pi_name = ''darwin'', pi_env = None, pi_data = None\<rparr>],
        res_specified = False\<rparr>"
  using
    getMatchedPlatforms_precedence [of
      "\<lparr>ps_multiplatform = None, ps_platform = Some ''win32'', ps_platforms = Some [''linux'', ''darwin'']\<rparr>"
      "[''linux'', ''darwin'']" "''darwin''"
      "[\<lparr>pi_name = ''darwin'', pi_env = None, pi_data = None\<rparr>,
        \<lparr>pi_name = ''win32'', pi_env = None, pi_data = None\<rparr>,
        \<lparr>pi_name = ''linux'', pi_env = None, pi_data = None\<rparr>]" "''x''"]
    getMatchedPlatforms_precedence [of
      "\<lparr>ps_multiplatform = Some True, ps_platform = Some ''win32'', ps_platforms = None\<rparr>"
      "[]" "''darwin''"
      "[\<lparr>pi_name = ''darwin'', pi_env = None, pi_data = None\<rparr>,
        \<lparr>pi_name = ''win32'', pi_env = None, pi_data = None\<rparr>]" "''win32''"]
    getMatchedPlatforms_precedence [of
      "\<lparr>ps_multiplatform = Some True, ps_platform = None, ps_platforms = None\<rparr>"
      "[]" "''darwin''"
      "[\<lparr>pi_name = ''linux'', pi_env = None, pi_data = None\<rparr>,
        \<lparr>pi_name = ''win32'', pi_env = None, pi_data = None\<rparr>]" "''x''"]
    getMatchedPlatforms_precedence [of
      "\<lparr>ps_multiplatform = None, ps_platform = None, ps_platforms = None\<rparr>"
      "[]" "''darwin''"
      "[\<lparr>pi_name = ''linux'', pi_env = None, pi_data = None\<rparr>]" "''x''"]
  by (auto simp: truthy_def)

text \<open>
  With \<^verbatim>\<open>platforms: []\<close> and \<^verbatim>\<open>platform: "linux"\<close> the code filters by the empty array
  and returns no platform; the wording "if \<^verbatim>\<open>platforms\<close> is non-empty ... otherwise if
  \<^verbatim>\<open>platform\<close> is set" would return the platform \<^verbatim>\<open>linux\<close>.
\<close>

theorem getMatchedPlatforms_empty_list_counterexample:
  "getMatchedPlatforms ''darwin''
     \<lparr>ps_multiplatform = None, ps_platform = Some ''linux'', ps_platforms = Some []\<rparr>
     [\<lparr>pi_name = ''linux'', pi_env = None, pi_data = None\<rparr>]
     = \<lparr>res_platforms = [], res_specified = True\<rparr>
   \<and> spec_getMatchedPlatforms ''darwin''
     \<lparr>ps_multiplatform = None, ps_platform = Some ''linux'', ps_platforms = Some []\<rparr>
     [\<lparr>pi_name = ''linux'', pi_env = None, pi_data = None\<rparr>]
     = \<lparr>res_platforms = [\<lparr>pi_name = ''linux'', pi_env = None, pi_data = None\<rparr>],
        res_specified = True\<rparr>
   \<and> getMatchedPlatforms ''darwin''
     \<lparr>ps_multiplatform = None, ps_platform = Some ''linux'', ps_platforms = Some []\<rparr>
     [\<lparr>pi_name = ''linux'', pi_env = None, pi_data = None\<rparr>]
     \<noteq> spec_getMatchedPlatforms ''darwin''
     \<lparr>ps_multiplatform = None, ps_platform = Some ''linux'', ps_platforms = Some []\<rparr>
     [\<lparr>pi_name = ''linux'', pi_env = None, pi_data = None\<rparr>]"
  by (simp add: getMatchedPlatforms_def spec_getMatchedPlatforms_def platformNames_of_def
      spec_platformNames_def truthy_def)


section \<open>Mapping normalisation\<close>

lemma endsWith_sep_iff: "endsWith s sep \<longleftrightarrow> s \<noteq> [] \<and> last s = CHR ''/''"
proof (cases s rule: rev_cases)
  case Nil
  then show ?thesis by (simp add: endsWith_def sep_def)
next
  case (snoc xs x)
  then show ?thesis by (auto simp: endsWith_def sep_def)
qed

lemma normalize_keeps_trailing_sep:
  "endsWith s sep \<Longrightarrow> endsWith (normalize s) sep"
  by (auto simp: endsWith_sep_iff normalize_def Let_def)

lemma normalize_nonempty: "normalize s \<noteq> []"
  by (auto simp: normalize_def Let_def)

lemma split_scan_slash_free_segments:
  "CHR ''/'' \<notin> set acc \<Longrightarrow> \<forall>s \<in> set (split_scan ''/'' acc q). CHR ''/'' \<notin> set s"
  by (induction "''/''" acc q rule: split_scan.induct) auto

lemma good_stack_Nil: "good_stack b []"
  by (simp add: good_stack_def)

lemma good_stack_step:
  assumes g: "good_stack b st" and sf: "CHR ''/'' \<notin> set seg"
  shows "good_stack b (normalize_step b st seg)"
proof -
  from g obtain k tops where st: "st = tops @ replicate k ''..''"
    and tops: "''..'' \<notin> set tops" and k: "\<not> b \<longrightarrow> k = 0"
    and cl: "\<forall>s \<in> set st. clean_segment s"
    by (auto simp: good_stack_def)
  consider (skip) "seg = [] \<or> seg = ''.''"
    | (up) "seg = ''..''"
    | (plain) "seg \<noteq> []" "seg \<noteq> ''.''" "seg \<noteq> ''..''"
    by blast
  then show ?thesis
  proof cases
    case skip
    then show ?thesis using g by auto
  next
    case up
    have cu: "clean_segment ''..''" by (simp add: clean_segment_def)
    show ?thesis
    proof (cases tops)
      case Nil
      then have st': "st = replicate k ''..''" using st by simp
      have hd_up: "st \<noteq> [] \<Longrightarrow> hd st = ''..''" using st' by (cases k) auto
      show ?thesis
      proof (cases b)
        case True
        have "normalize_step b st seg = ''..'' # st" using up hd_up True by auto
        moreover have "''..'' # st = [] @ replicate (Suc k) ''..''" using st' by simp
        ultimately show ?thesis using cl cu True
          unfolding good_stack_def by (metis empty_iff list.set(1) set_ConsD)
      next
        case False
        then have "normalize_step b st seg = st" using up hd_up by auto
        then show ?thesis using g by simp
      qed
    next
      case (Cons t tops')
      then have "hd st = t" "t \<noteq> ''..''" "st \<noteq> []" using st tops by auto
      then have "normalize_step b st seg = tl st" using up by simp
      moreover have "tl st = tops' @ replicate k ''..''" using st Cons by simp
      moreover have "''..'' \<notin> set tops'" using tops Cons by simp
      moreover have "\<forall>s \<in> set (tl st). clean_segment s"
        using cl \<open>st \<noteq> []\<close> by (metis list.set_sel(2))
      ultimately show ?thesis using k unfolding good_stack_def by metis
    qed
  next
    case plain
    then have "normalize_step b st seg = seg # st" by simp
    moreover have "seg # st = (seg # tops) @ replicate k ''..''" using st by simp
    moreover have "''..'' \<notin> set (seg # tops)" using tops plain by simp
    moreover have "\<forall>s \<in> set (seg # st). clean_segment s"
      using cl plain sf by (simp add: clean_segment_def)
    ultimately show ?thesis using k unfolding good_stack_def by metis
  qed
qed

lemma good_stack_foldl:
  "good_stack b st \<Longrightarrow> \<forall>s \<in> set segs. CHR ''/'' \<notin> set s \<Longrightarrow>
   good_stack b (foldl (normalize_step b) st segs)"
  by (induction segs arbitrary: st) (simp_all add: good_stack_step del: normalize_step.simps)

lemma foldl_ups:
  "foldl (normalize_step True) (replicate j ''..'') (replicate k ''..'') = replicate (k + j) ''..''"
proof (induction k arbitrary: j)
  case 0
  then show ?case by simp
next
  case (Suc k)
  have "normalize_step True (replicate j ''..'') ''..'' = replicate (Suc j) ''..''"
    by (cases j) auto
  then show ?case using Suc [of "Suc j"] by simp
qed

lemma foldl_normalize_step_plain2:
  "\<forall>t \<in> set segs. clean_segment t \<and> t \<noteq> ''..'' \<Longrightarrow>
   foldl (normalize_step b) st segs = rev segs @ st"
  by (induction segs arbitrary: st) (auto simp: clean_segment_def)

lemma refold_good_stack:
  assumes "good_stack b st"
  shows "foldl (normalize_step b) [] (rev st) = st"
proof -
  from assms obtain k tops where st: "st = tops @ replicate k ''..''"
    and tops: "''..'' \<notin> set tops" and k: "\<not> b \<longrightarrow> k = 0"
    and cl: "\<forall>s \<in> set st. clean_segment s"
    by (auto simp: good_stack_def)
  have ups: "foldl (normalize_step b) [] (replicate k ''..'') = replicate k ''..''"
  proof (cases b)
    case True
    then show ?thesis using foldl_ups [of 0 k] by simp
  next
    case False
    then show ?thesis using k by simp
  qed
  have pl: "\<forall>t \<in> set (rev tops). clean_segment t \<and> t \<noteq> ''..''"
    using cl tops st by auto
  have "foldl (normalize_step b) [] (rev st)
        = foldl (normalize_step b) (foldl (normalize_step b) [] (replicate k ''..'')) (rev tops)"
    by (simp add: st)
  also have "\<dots> = rev (rev tops) @ replicate k ''..''"
    unfolding ups by (rule foldl_normalize_step_plain2 [OF pl])
  finally show ?thesis by (simp add: st)
qed


lemma join_with_snoc:
  "segs \<noteq> [] \<Longrightarrow> join_with sp (segs @ [x]) = join_with sp segs @ sp @ x"
  by (induction sp segs rule: join_with.induct) auto

lemma join_with_Cons:
  "segs \<noteq> [] \<Longrightarrow> join_with sp (x # segs) = x @ sp @ join_with sp segs"
  by (cases segs) auto

lemma split_on_join:
  "segs \<noteq> [] \<Longrightarrow> \<forall>t \<in> set segs. CHR ''/'' \<notin> set t \<Longrightarrow>
   split_on ''/'' (join_with ''/'' segs) = segs"
  using split_scan_join [of "hd segs" "tl segs" "[]"] by (cases segs) (auto simp: split_on_def)

lemma join_with_clean_nonempty:
  "segs \<noteq> [] \<Longrightarrow> \<forall>t \<in> set segs. clean_segment t \<Longrightarrow>
   join_with ''/'' segs \<noteq> [] \<and> hd (join_with ''/'' segs) \<noteq> CHR ''/''
   \<and> last (join_with ''/'' segs) \<noteq> CHR ''/''"
proof -
  assume ne: "segs \<noteq> []" and cl: "\<forall>t \<in> set segs. clean_segment t"
  then obtain s ss where segs: "segs = s # ss" by (cases segs) auto
  have s: "s \<noteq> []" "CHR ''/'' \<notin> set s" using cl segs by (auto simp: clean_segment_def)
  have all_ne: "\<forall>t \<in> set (s # ss). t \<noteq> []" using cl segs by (auto simp: clean_segment_def)
  have h: "join_with ''/'' segs \<noteq> [] \<and> hd (join_with ''/'' segs) = hd s"
    using join_with_hd [OF s(1)] segs by simp
  have "hd s \<in> set s" using s(1) by simp
  then have 1: "hd (join_with ''/'' segs) \<noteq> CHR ''/''" using h s(2) by auto
  have "last (join_with ''/'' segs) = last (last segs)"
    using join_with_last [OF all_ne] segs by simp
  moreover have "last segs \<in> set segs" using ne by simp
  then have "clean_segment (last segs)" using cl by blast
  then have "last (last segs) \<in> set (last segs)" "CHR ''/'' \<notin> set (last segs)"
    by (auto simp: clean_segment_def)
  ultimately have 2: "last (join_with ''/'' segs) \<noteq> CHR ''/''" by metis
  from h 1 2 show ?thesis by simp
qed

lemma normalize_from_string:
  "X \<noteq> [] \<Longrightarrow> normalizeString X (hd X \<noteq> CHR ''/'') = p \<Longrightarrow> p \<noteq> [] \<Longrightarrow>
   normalize X = (if hd X = CHR ''/'' then ''/'' else []) @ p
                 @ (if last X = CHR ''/'' then ''/'' else [])"
  by (simp add: normalize_def Let_def)

lemma normalize_shape:
  assumes "q \<noteq> []"
  shows "\<exists>st. good_stack (hd q \<noteq> CHR ''/'') st
          \<and> normalize q =
              (if st = []
               then (if hd q = CHR ''/'' then ''/''
                     else if last q = CHR ''/'' then ''./'' else ''.'')
               else (if hd q = CHR ''/'' then ''/'' else [])
                    @ join_with ''/'' (rev st)
                    @ (if last q = CHR ''/'' then ''/'' else []))"
proof -
  let ?b = "hd q \<noteq> CHR ''/''"
  let ?st = "foldl (normalize_step ?b) [] (split_on ''/'' q)"
  have sf: "\<forall>s \<in> set (split_on ''/'' q). CHR ''/'' \<notin> set s"
    using split_scan_slash_free_segments [of "[]" q] by (simp add: split_on_def)
  have g: "good_stack ?b ?st" by (rule good_stack_foldl [OF good_stack_Nil sf])
  have e: "join_with ''/'' (rev ?st) = [] \<longleftrightarrow> ?st = []"
  proof (cases "?st = []")
    case True
    then show ?thesis by simp
  next
    case False
    have "\<forall>t \<in> set (rev ?st). clean_segment t" using g by (simp add: good_stack_def)
    then show ?thesis using join_with_clean_nonempty [of "rev ?st"] False by simp
  qed
  have "normalize q =
              (if ?st = []
               then (if hd q = CHR ''/'' then ''/''
                     else if last q = CHR ''/'' then ''./'' else ''.'')
               else (if hd q = CHR ''/'' then ''/'' else [])
                    @ join_with ''/'' (rev ?st)
                    @ (if last q = CHR ''/'' then ''/'' else []))"
    using assms e by (simp add: normalize_def normalizeString_def Let_def del: normalize_step.simps)
  then show ?thesis using g by blast
qed

lemma normalize_dir_append:
  assumes q: "q \<noteq> []" and dir: "endsWith (normalize q) sep" and nd: "normalize q \<noteq> ''./''"
    and B: "plain_segment B"
  shows "join_path [normalize q, B] = normalize q @ B"
proof -
  let ?Q = "normalize q"
  let ?b = "hd q \<noteq> CHR ''/''"
  have Bp: "B \<noteq> []" "CHR ''/'' \<notin> set B" "B \<noteq> ''.''" "B \<noteq> ''..''"
    using B by (auto simp: plain_segment_def)
  have lastB: "last B \<noteq> CHR ''/''" using Bp(1,2) last_in_set by metis
  have Qne: "?Q \<noteq> []" by (rule normalize_nonempty)
  have jp: "join_path [?Q, B] = normalize (?Q @ ''/'' @ B)"
    using Qne Bp(1) by (simp add: join_path_def)
  from normalize_shape [OF q] obtain st where g: "good_stack ?b st"
    and shape: "?Q =
              (if st = []
               then (if hd q = CHR ''/'' then ''/''
                     else if last q = CHR ''/'' then ''./'' else ''.'')
               else (if hd q = CHR ''/'' then ''/'' else [])
                    @ join_with ''/'' (rev st)
                    @ (if last q = CHR ''/'' then ''/'' else []))"
    by blast
  have cl: "\<forall>t \<in> set (rev st). clean_segment t" using g by (simp add: good_stack_def)
  show ?thesis
  proof (cases "st = []")
    case True
    then have Q: "?Q = ''/''" using shape dir nd
      by (auto simp: endsWith_sep_iff split: if_splits)
    have sp: "split_on ''/'' (''/'' @ ''/'' @ B) = [[], [], B]"
      using split_on_join [of "[[], [], B]"] Bp(2) by simp
    have "normalize (''/'' @ ''/'' @ B) = ''/'' @ B"
      using Bp lastB sp by (simp add: normalize_def normalizeString_def Let_def)
    then show ?thesis using jp Q by simp
  next
    case False
    let ?p = "join_with ''/'' (rev st)"
    have pj: "?p \<noteq> []" "hd ?p \<noteq> CHR ''/''" "last ?p \<noteq> CHR ''/''"
      using join_with_clean_nonempty [of "rev st"] False cl by auto
    have trail: "last q = CHR ''/''"
    proof (rule ccontr)
      assume "last q \<noteq> CHR ''/''"
      then have "?Q = (if hd q = CHR ''/'' then ''/'' else []) @ ?p" using shape False by simp
      then have "last ?Q = last ?p" using pj(1) by simp
      then show False using dir pj(3) by (simp add: endsWith_sep_iff)
    qed
    let ?pre = "if hd q = CHR ''/'' then [[]] else []"
    have Q: "?Q = (if hd q = CHR ''/'' then ''/'' else []) @ ?p @ ''/''"
      using shape False trail by simp
    have segs: "?Q @ ''/'' @ B = join_with ''/'' (?pre @ rev st @ [[], B])"
    proof -
      have "join_with ''/'' (rev st @ [[], B]) = ?p @ ''/'' @ ''/'' @ B"
        using False join_with_snoc [of "rev st @ [[]]" "''/''" B]
          join_with_snoc [of "rev st" "''/''" "[]"] by simp
      then show ?thesis using Q False by (auto simp: join_with_Cons)
    qed
    have sfall: "\<forall>t \<in> set (?pre @ rev st @ [[], B]). CHR ''/'' \<notin> set t"
      using cl Bp(2) by (auto simp: clean_segment_def)
    have sp: "split_on ''/'' (?Q @ ''/'' @ B) = ?pre @ rev st @ [[], B]"
      unfolding segs using split_on_join [OF _ sfall] by simp
    have hdQ: "hd (?Q @ ''/'' @ B) = CHR ''/'' \<longleftrightarrow> hd q = CHR ''/''"
      using Q pj by (cases "hd q = CHR ''/''") (auto simp: hd_append)
    have fold: "foldl (normalize_step ?b) [] (?pre @ rev st @ [[], B]) = B # st"
    proof -
      have "foldl (normalize_step ?b) [] (?pre @ rev st @ [[], B])
            = foldl (normalize_step ?b) (foldl (normalize_step ?b) [] (rev st)) [[], B]"
        by simp
      also have "\<dots> = foldl (normalize_step ?b) st [[], B]"
        by (simp only: refold_good_stack [OF g])
      also have "\<dots> = B # st" using Bp by simp
      finally show ?thesis .
    qed
    have ns: "normalizeString (?Q @ ''/'' @ B) ?b = ?p @ ''/'' @ B"
      unfolding normalizeString_def sp fold
      using False join_with_snoc [of "rev st" "''/''" B] by simp
    have "normalize (?Q @ ''/'' @ B) = (if hd q = CHR ''/'' then ''/'' else []) @ ?p @ ''/'' @ B"
    proof -
      have ne: "?Q @ ''/'' @ B \<noteq> []" by simp
      have l: "last (?Q @ ''/'' @ B) \<noteq> CHR ''/''" using lastB Bp(1) by simp
      have ns': "normalizeString (?Q @ ''/'' @ B) (hd (?Q @ ''/'' @ B) \<noteq> CHR ''/'') = ?p @ ''/'' @ B"
        using ns hdQ by simp
      have pne: "?p @ ''/'' @ B \<noteq> []" by simp
      show ?thesis
        using normalize_from_string [OF ne ns' pne] l hdQ by simp
    qed
    then show ?thesis using jp Q by simp
  qed
qed

text \<open>
  C6.  For a descriptor with a valid pattern whose normalised path ends in a separator:
  when the final components of pattern and path are both \<^verbatim>\<open>**\<close>, normalisation fails
  with \<^verbatim>\<open>Invalid path option\<close>; otherwise it succeeds and the path is the join
  (\<^verbatim>\<open>Path.join\<close>) of the normalised path and the pattern's final component.  Unless
  the path is \<^verbatim>\<open>./\<close> or the component is not a plain name (\<^verbatim>\<open>.\<close> or \<^verbatim>\<open>..\<close>), the join
  is the path with the component appended.  \<^verbatim>\<open>{pattern: "a/b.txt", path: "out/"}\<close>
  yields the path \<^verbatim>\<open>out/b.txt\<close>.
\<close>

theorem normalizeMapping_directory_target:
  "(fd_pattern d = Some p \<and> p \<noteq> [] \<and> \<not> endsWith (normalize p) sep
      \<and> fd_path d = Some q \<and> q \<noteq> [] \<and> endsWith (normalize q) sep
    \<longrightarrow>
      (basename (normalize p) = ''**'' \<and> basename (normalize q) = ''**''
         \<longrightarrow> normalizeMapping (ConfigDescriptor d) = Inl InvalidPathOption)
      \<and> (\<not> (basename (normalize p) = ''**'' \<and> basename (normalize q) = ''**'')
         \<longrightarrow> (\<exists>m. normalizeMapping (ConfigDescriptor d) = Inr m
                  \<and> fm_pattern m = normalize p
                  \<and> fm_path m = join_path [normalize q, basename (normalize p)]))
      \<and> (normalize q \<noteq> ''./'' \<and> plain_segment (basename (normalize p))
         \<longrightarrow> join_path [normalize q, basename (normalize p)]
               = normalize q @ basename (normalize p)))
   \<and> normalizeMapping (ConfigDescriptor
        \<lparr>fd_pattern = Some ''a/b.txt'', fd_baseDir = None, fd_package = None,
         fd_path = Some ''out/'', fd_platform = None, fd_platforms = None\<rparr>)
      = Inr \<lparr>fm_package = None, fm_baseDir = None, fm_pattern = ''a/b.txt'',
             fm_path = ''out/b.txt'', fm_platformSet = None\<rparr>"
proof -
  have ex: "normalizeMapping (ConfigDescriptor
        \<lparr>fd_pattern = Some ''a/b.txt'', fd_baseDir = None, fd_package = None,
         fd_path = Some ''out/'', fd_platform = None, fd_platforms = None\<rparr>)
      = Inr \<lparr>fm_package = None, fm_baseDir = None, fm_pattern = ''a/b.txt'',
             fm_path = ''out/b.txt'', fm_platformSet = None\<rparr>"
    by code_simp
  have app: "q \<noteq> [] \<and> endsWith (normalize q) sep \<and> normalize q \<noteq> ''./''
        \<and> plain_segment (basename (normalize p))
      \<longrightarrow> join_path [normalize q, basename (normalize p)]
            = normalize q @ basename (normalize p)"
    using normalize_dir_append [of q "basename (normalize p)"] by blast
  have main: "fd_pattern d = Some p \<and> p \<noteq> [] \<and> \<not> endsWith (normalize p) sep
      \<and> fd_path d = Some q \<and> q \<noteq> [] \<and> endsWith (normalize q) sep
    \<longrightarrow>
      (basename (normalize p) = ''**'' \<and> basename (normalize q) = ''**''
         \<longrightarrow> normalizeMapping (ConfigDescriptor d) = Inl InvalidPathOption)
      \<and> (\<not> (basename (normalize p) = ''**'' \<and> basename (normalize q) = ''**'')
         \<longrightarrow> (\<exists>m. normalizeMapping (ConfigDescriptor d) = Inr m
                  \<and> fm_pattern m = normalize p
                  \<and> fm_path m = join_path [normalize q, basename (normalize p)]))"
    by (auto simp: normalizeMapping_def read_pattern_def read_path_def truthy_def Let_def)
  from ex app main show ?thesis by blast
qed

theorem normalizeMapping_directory_target_witness:
  "\<not> endsWith (normalize ''src/**'') sep \<and> endsWith (normalize ''out/**/'') sep
   \<and> basename (normalize ''src/**'') = ''**'' \<and> basename (normalize ''out/**/'') = ''**''
   \<and> normalizeMapping (ConfigDescriptor
        \<lparr>fd_pattern = Some ''src/**'', fd_baseDir = None, fd_package = None,
         fd_path = Some ''out/**/'', fd_platform = None, fd_platforms = None\<rparr>)
       = Inl InvalidPathOption
   \<and> \<not> endsWith (normalize ''src/*.js'') sep \<and> endsWith (normalize ''lib/x/'') sep
   \<and> basename (normalize ''src/*.js'') \<noteq> ''**''
   \<and> normalize ''lib/x/'' \<noteq> ''./'' \<and> plain_segment (basename (normalize ''src/*.js''))
   \<and> (\<exists>m. normalizeMapping (ConfigDescriptor
        \<lparr>fd_pattern = Some ''src/*.js'', fd_baseDir = None, fd_package = None,
         fd_path = Some ''lib/x/'', fd_platform = None, fd_platforms = None\<rparr>) = Inr m
        \<and> fm_pattern m = ''src/*.js''
        \<and> fm_path m = normalize ''lib/x/'' @ basename (normalize ''src/*.js'')
        \<and> fm_path m = ''lib/x/*.js'')"
proof -
  have a: "\<not> endsWith (normalize ''src/**'') sep" "endsWith (normalize ''out/**/'') sep"
    "basename (normalize ''src/**'') = ''**''" "basename (normalize ''out/**/'') = ''**''"
    by code_simp+
  have b: "\<not> endsWith (normalize ''src/*.js'') sep" "endsWith (normalize ''lib/x/'') sep"
    "basename (normalize ''src/*.js'') \<noteq> ''**''" "normalize ''lib/x/'' \<noteq> ''./''"
    "plain_segment (basename (normalize ''src/*.js''))"
    by code_simp+
  have c: "normalize ''src/*.js'' = ''src/*.js''"
    "normalize ''lib/x/'' @ basename (normalize ''src/*.js'') = ''lib/x/*.js''"
    by code_simp+
  note t1 = normalizeMapping_directory_target
    [of "\<lparr>fd_pattern = Some ''src/**'', fd_baseDir = None, fd_package = None,
         fd_path = Some ''out/**/'', fd_platform = None, fd_platforms = None\<rparr>"
        "''src/**''" "''out/**/''"]
  note t2 = normalizeMapping_directory_target
    [of "\<lparr>fd_pattern = Some ''src/*.js'', fd_baseDir = None, fd_package = None,
         fd_path = Some ''lib/x/'', fd_platform = None, fd_platforms = None\<rparr>"
        "''src/*.js''" "''lib/x/''"]
  have 1: "normalizeMapping (ConfigDescriptor
        \<lparr>fd_pattern = Some ''src/**'', fd_baseDir = None, fd_package = None,
         fd_path = Some ''out/**/'', fd_platform = None, fd_platforms = None\<rparr>)
       = Inl InvalidPathOption"
    using t1 a by simp
  have 2: "\<exists>m. normalizeMapping (ConfigDescriptor
        \<lparr>fd_pattern = Some ''src/*.js'', fd_baseDir = None, fd_package = None,
         fd_path = Some ''lib/x/'', fd_platform = None, fd_platforms = None\<rparr>) = Inr m
        \<and> fm_pattern m = ''src/*.js''
        \<and> fm_path m = normalize ''lib/x/'' @ basename (normalize ''src/*.js'')
        \<and> fm_path m = ''lib/x/*.js''"
  proof -
    from t2 b obtain m where m: "normalizeMapping (ConfigDescriptor
        \<lparr>fd_pattern = Some ''src/*.js'', fd_baseDir = None, fd_package = None,
         fd_path = Some ''lib/x/'', fd_platform = None, fd_platforms = None\<rparr>) = Inr m"
      "fm_pattern m = normalize ''src/*.js''"
      "fm_path m = join_path [normalize ''lib/x/'', basename (normalize ''src/*.js'')]"
      by auto
    from t2 b have "join_path [normalize ''lib/x/'', basename (normalize ''src/*.js'')]
        = normalize ''lib/x/'' @ basename (normalize ''src/*.js'')"
      by simp
    then show ?thesis using m c by auto
  qed
  from a b 1 2 show ?thesis by simp
qed

text \<open>
  C7, as the code has it.  Normalisation fails in exactly three cases: the descriptor's
  pattern is missing or empty; the normalised pattern ends in a separator; the normalised
  path ends in a separator and the final components of pattern and path are both
  \<^verbatim>\<open>**\<close>.  In particular it fails whenever the configured pattern ends in a separator.
  None of the other errors is raised by it.
\<close>

theorem normalizeMapping_failures:
  "(normalizeMapping config = Inl PatternRequired \<longleftrightarrow>
      (\<exists>d. config = ConfigDescriptor d \<and> (fd_pattern d = None \<or> fd_pattern d = Some [])))
   \<and> (normalizeMapping config = Inl PatternMatchesDirectory \<longleftrightarrow>
      (\<exists>pattern. read_pattern config = Some pattern \<and> endsWith pattern sep))
   \<and> (normalizeMapping config = Inl InvalidPathOption \<longleftrightarrow>
      (\<exists>pattern path. read_pattern config = Some pattern \<and> \<not> endsWith pattern sep
         \<and> read_path config = Some path \<and> endsWith path sep
         \<and> basename pattern = ''**'' \<and> basename path = ''**''))
   \<and> normalizeMapping config \<noteq> Inl MissingFiles
   \<and> normalizeMapping config \<noteq> Inl TypeError
   \<and> (endsWith s sep \<and> (config = ConfigString s
         \<or> (\<exists>d. config = ConfigDescriptor d \<and> fd_pattern d = Some s))
       \<longrightarrow> normalizeMapping config = Inl PatternMatchesDirectory)
   \<and> normalizeMapping config \<noteq> Inl IOError
   \<and> normalizeMapping config \<noteq> Inl (DependencyNotFound name)"
proof -
  have rp: "read_pattern config = None \<longleftrightarrow>
      (\<exists>d. config = ConfigDescriptor d \<and> (fd_pattern d = None \<or> fd_pattern d = Some []))"
    by (cases config) (auto simp: read_pattern_def truthy_def split: option.splits)
  have path: "read_pattern config = Some pattern \<Longrightarrow> \<not> endsWith pattern sep \<Longrightarrow>
      (case read_path config of Some p \<Rightarrow> p | None \<Rightarrow> pattern) = path \<Longrightarrow>
      endsWith path sep \<Longrightarrow> read_path config = Some path" for pattern path
    by (cases "read_path config") auto
  have 1: "normalizeMapping config = Inl PatternRequired \<longleftrightarrow>
      (\<exists>d. config = ConfigDescriptor d \<and> (fd_pattern d = None \<or> fd_pattern d = Some []))"
    unfolding rp [symmetric]
    by (auto simp: normalizeMapping_def Let_def split: option.splits)
  have 2: "normalizeMapping config = Inl PatternMatchesDirectory \<longleftrightarrow>
      (\<exists>pattern. read_pattern config = Some pattern \<and> endsWith pattern sep)"
    by (auto simp: normalizeMapping_def Let_def split: option.splits)
  have 3: "normalizeMapping config = Inl InvalidPathOption \<longleftrightarrow>
      (\<exists>pattern path. read_pattern config = Some pattern \<and> \<not> endsWith pattern sep
         \<and> read_path config = Some path \<and> endsWith path sep
         \<and> basename pattern = ''**'' \<and> basename path = ''**'')"
    by (auto simp: normalizeMapping_def Let_def split: option.splits if_splits)
  have 4: "normalizeMapping config \<noteq> Inl MissingFiles"
    "normalizeMapping config \<noteq> Inl TypeError"
    "normalizeMapping config \<noteq> Inl IOError"
    "normalizeMapping config \<noteq> Inl (DependencyNotFound name)"
    by (auto simp: normalizeMapping_def Let_def split: option.splits if_splits)
  have 5: "endsWith s sep \<and> (config = ConfigString s
         \<or> (\<exists>d. config = ConfigDescriptor d \<and> fd_pattern d = Some s))
       \<longrightarrow> normalizeMapping config = Inl PatternMatchesDirectory"
  proof
    assume a: "endsWith s sep \<and> (config = ConfigString s
         \<or> (\<exists>d. config = ConfigDescriptor d \<and> fd_pattern d = Some s))"
    then have ne: "s \<noteq> []" by (simp add: endsWith_sep_iff)
    have "read_pattern config = Some (normalize s)"
      using a ne by (auto simp: read_pattern_def truthy_def)
    then show "normalizeMapping config = Inl PatternMatchesDirectory"
      using a normalize_keeps_trailing_sep [of s] 2 by blast
  qed
  from 1 2 3 4 5 show ?thesis by blast
qed


theorem normalizeMapping_failures_witness:
  "endsWith ''dir/'' sep
   \<and> normalizeMapping (ConfigString ''dir/'') = Inl PatternMatchesDirectory
   \<and> normalizeMapping (ConfigDescriptor
        \<lparr>fd_pattern = Some ''dir/'', fd_baseDir = None, fd_package = None,
         fd_path = Some ''out/x'', fd_platform = None, fd_platforms = None\<rparr>)
       = Inl PatternMatchesDirectory"
proof -
  have e: "endsWith ''dir/'' sep" by code_simp
  note t1 = normalizeMapping_failures [of "ConfigString ''dir/''" "''dir/''"]
  note t2 = normalizeMapping_failures
    [of "ConfigDescriptor
        \<lparr>fd_pattern = Some ''dir/'', fd_baseDir = None, fd_package = None,
         fd_path = Some ''out/x'', fd_platform = None, fd_platforms = None\<rparr>" "''dir/''"]
  from e t1 t2 show ?thesis by simp
qed

text \<open>
  A mapping whose pattern is present and does not end in a separator, and whose
  normalisation fails all the same.
\<close>

theorem normalizeMapping_failures_counterexample:
  "normalizeMapping (ConfigDescriptor
        \<lparr>fd_pattern = Some ''src/**'', fd_baseDir = None, fd_package = None,
         fd_path = Some ''out/**/'', fd_platform = None, fd_platforms = None\<rparr>)
     = Inl InvalidPathOption
   \<and> read_pattern (ConfigDescriptor
        \<lparr>fd_pattern = Some ''src/**'', fd_baseDir = None, fd_package = None,
         fd_path = Some ''out/**/'', fd_platform = None, fd_platforms = None\<rparr>)
     = Some ''src/**''
   \<and> \<not> endsWith ''src/**'' sep"
  by code_simp

section \<open>Artifact generation\<close>

lemma plugin_loop_append:
  "plugin_loop (xs @ ys) metadata d =
     (case plugin_loop xs metadata d of (metadata', d') \<Rightarrow> plugin_loop ys metadata' d')"
  by (induction xs arbitrary: metadata d) simp_all

lemma plugin_loop_snoc:
  "snd (plugin_loop (ps @ [p]) metadata d) =
     (case getDefaultArtifactId p of
        Some g \<Rightarrow> Some p
      | None \<Rightarrow> snd (plugin_loop ps metadata d))"
  by (cases "plugin_loop ps metadata d") (simp add: plugin_loop_append split: option.splits)

lemma plugin_loop_last:
  "snd (plugin_loop plugins metadata None) =
     (if plugins_with_generator plugins = [] then None
      else Some (last (plugins_with_generator plugins)))"
proof (induction plugins rule: rev_induct)
  case Nil
  then show ?case by (simp add: plugins_with_generator_def)
next
  case (snoc p ps)
  then show ?case
    by (simp add: plugin_loop_snoc plugins_with_generator_def split: option.splits)
qed

lemma last_with_generator:
  "plugins_with_generator plugins \<noteq> [] \<Longrightarrow>
   getDefaultArtifactId (last (plugins_with_generator plugins)) \<noteq> None"
proof -
  assume a: "plugins_with_generator plugins \<noteq> []"
  then have "last (plugins_with_generator plugins) \<in> set (plugins_with_generator plugins)"
    by simp
  then show ?thesis by (simp add: plugins_with_generator_def)
qed

lemma idTemplate_of_recorded:
  "idTemplate_of config_id (snd (plugin_loop plugins metadata None)) specified platform =
   Inr (expected_idTemplate config_id (recorded_generator plugins) specified platform)"
proof (cases "plugins_with_generator plugins = []")
  case True
  then show ?thesis
    by (simp add: idTemplate_of_def default_idTemplate_def expected_idTemplate_def
        recorded_generator_def plugin_loop_last truthy_def split: option.splits)
next
  case False
  then obtain g where "getDefaultArtifactId (last (plugins_with_generator plugins)) = Some g"
    using last_with_generator [of plugins] by auto
  then show ?thesis using False
    by (simp add: idTemplate_of_def default_idTemplate_def expected_idTemplate_def
        recorded_generator_def plugin_loop_last truthy_def split: option.splits)
qed

lemma round_id_recorded:
  "round_id artifact project (snd (plugin_loop (project_plugins project) metadata None)) platform
   = Inr (renderTemplate project
            (expected_idTemplate (cfg_id (art_config artifact))
               (recorded_generator (project_plugins project))
               (platformSpecified project) platform)
            (Some [(''platform'',
                    if platformSpecified project then DString (pi_name platform)
                    else DUndefined)]))"
  by (simp add: round_id_def idTemplate_of_recorded id_data_def)

lemma active_mappings_filter:
  "active_mappings mappings platform =
     filter (\<lambda>m. fm_platformSet m = None
                  \<or> (\<exists>S. fm_platformSet m = Some S \<and> pi_name platform \<in> S)) mappings"
  unfolding active_mappings_def
  by (rule filter_cong) (auto split: option.splits)

lemma walk_prefix:
  "walk artifact project host platform mappings s = ((walked, r), s') \<Longrightarrow>
   map fst walked = take (length walked) mappings
   \<and> (r = None \<longrightarrow> length walked = length mappings)"
proof (induction mappings arbitrary: s walked r s')
  case Nil
  then show ?case by simp
next
  case (Cons mapping mappings)
  obtain res s1 where wm: "walk_mapping artifact project host platform mapping s = (res, s1)"
    by (cases "walk_mapping artifact project host platform mapping s")
  show ?case
  proof (cases res)
    case (Inl e)
    then show ?thesis using Cons.prems wm by auto
  next
    case (Inr entries)
    obtain w r0 s2 where
      rest: "walk artifact project host platform mappings s1 = ((w, r0), s2)"
      by (cases "walk artifact project host platform mappings s1") auto
    from Cons.prems wm Inr rest
    have eq: "walked = (mapping, entries) # w" "r = r0" by simp_all
    from Cons.IH [OF rest] eq show ?thesis by simp
  qed
qed

lemma walk_completes:
  assumes "host_reliable host"
    and "\<forall>mapping \<in> set mappings.
           \<exists>dir. resolveBaseDir artifact project (host_cwd host) mapping (pi_name platform)
                 = Inr dir"
  shows "\<exists>walked s'. walk artifact project host platform mappings s = ((walked, None), s')"
  using assms(2)
proof (induction mappings arbitrary: s)
  case Nil
  then show ?case by simp
next
  case (Cons mapping mappings)
  from Cons.prems obtain dir where
    dir: "resolveBaseDir artifact project (host_cwd host) mapping (pi_name platform) = Inr dir"
    by auto
  have "\<exists>entries s1. walk_mapping artifact project host platform mapping s = (Inr entries, s1)"
  proof -
    let ?data = "Some (walk_data platform)"
    let ?pattern = "renderTemplate project (fm_pattern mapping) ?data"
    let ?baseDir = "renderTemplate project dir ?data"
    from assms(1) obtain matches s1 where
      "host_walk host s ?pattern ?baseDir = (Inr matches, s1)"
      unfolding host_reliable_def by blast
    then show ?thesis using dir by (simp add: walk_mapping_def Let_def)
  qed
  then obtain entries s1 where
    wm: "walk_mapping artifact project host platform mapping s = (Inr entries, s1)" by blast
  from Cons.IH [of s1] Cons.prems obtain walked s2 where
    "walk artifact project host platform mappings s1 = ((walked, None), s2)" by auto
  then show ?case using wm by simp
qed

lemma generate_step_result:
  assumes "generate_step artifact project host
             (snd (plugin_loop (project_plugins project) metadata None)) platform s
           = (Inr step, s')"
  shows "step_platform step = platform \<and> step_as_expected artifact project step"
proof -
  let ?d = "snd (plugin_loop (project_plugins project) metadata None)"
  let ?i = "renderTemplate project
            (expected_idTemplate (cfg_id (art_config artifact))
               (recorded_generator (project_plugins project))
               (platformSpecified project) platform)
            (Some [(''platform'',
                    if platformSpecified project then DString (pi_name platform)
                    else DUndefined)])"
  have ri: "round_id artifact project ?d platform = Inr ?i" by (rule round_id_recorded)
  obtain walked r s1 where
    w: "walk artifact project host platform (active_mappings (art_mappings artifact) platform) s
        = ((walked, r), s1)"
    by (cases "walk artifact project host platform
                 (active_mappings (art_mappings artifact) platform) s") auto
  obtain wr s2 where
    wa: "host_writeArchive host s1 (join_path [project_distDir project, ?i @ ''.zip''])
           (concat (map snd walked)) = (wr, s2)"
    by (cases "host_writeArchive host s1 (join_path [project_distDir project, ?i @ ''.zip''])
           (concat (map snd walked))")
  from assms ri w wa have r: "r = None" and wr: "wr = None"
    by (auto simp: generate_step_def split: option.splits)
  from assms ri w wa r wr have step:
    "step = \<lparr>step_platform = platform, step_id = ?i, step_walked = walked,
             step_archive = join_path [project_distDir project, ?i @ ''.zip''],
             step_item_platform =
               (if platformSpecified project then Some (pi_name platform) else None)\<rparr>"
    by (simp add: generate_step_def)
  from walk_prefix [OF w] r have "map fst walked = active_mappings (art_mappings artifact) platform"
    by simp
  then show ?thesis by (simp add: step step_as_expected_def)
qed

lemma generate_step_completes:
  assumes "host_reliable host"
    and "\<forall>mapping \<in> set (active_mappings (art_mappings artifact) platform).
           \<exists>dir. resolveBaseDir artifact project (host_cwd host) mapping (pi_name platform)
                 = Inr dir"
  shows "\<exists>step s'. generate_step artifact project host
             (snd (plugin_loop (project_plugins project) metadata None)) platform s
           = (Inr step, s')"
proof -
  let ?d = "snd (plugin_loop (project_plugins project) metadata None)"
  obtain i where ri: "round_id artifact project ?d platform = Inr i"
    using round_id_recorded [of artifact project metadata platform] by blast
  from walk_completes [OF assms] obtain walked s1 where
    w: "walk artifact project host platform (active_mappings (art_mappings artifact) platform) s
        = ((walked, None), s1)" by blast
  from assms(1) obtain s2 where
    wa: "host_writeArchive host s1 (join_path [project_distDir project, i @ ''.zip''])
           (concat (map snd walked)) = (None, s2)"
    unfolding host_reliable_def by blast
  show ?thesis by (simp add: generate_step_def ri w wa)
qed

lemma platform_loop_steps:
  "platform_loop artifact project host
     (snd (plugin_loop (project_plugins project) metadata None)) platforms s
   = ((steps, r), s') \<Longrightarrow>
   map step_platform steps = take (length steps) platforms
   \<and> (\<forall>step \<in> set steps. step_as_expected artifact project step)
   \<and> (r = None \<longrightarrow> length steps = length platforms)"
proof (induction platforms arbitrary: s steps r s')
  case Nil
  then show ?case by simp
next
  case (Cons platform rest)
  let ?d = "snd (plugin_loop (project_plugins project) metadata None)"
  obtain res s1 where gs: "generate_step artifact project host ?d platform s = (res, s1)"
    by (cases "generate_step artifact project host ?d platform s")
  show ?case
  proof (cases res)
    case (Inl e)
    then show ?thesis using Cons.prems gs by auto
  next
    case (Inr step)
    obtain st r0 s2 where
      pl: "platform_loop artifact project host ?d rest s1 = ((st, r0), s2)"
      by (cases "platform_loop artifact project host ?d rest s1") auto
    from Cons.prems gs Inr pl have eq: "steps = step # st" "r = r0" by simp_all
    from gs Inr have "step_platform step = platform \<and> step_as_expected artifact project step"
      using generate_step_result [of artifact project host metadata platform s step s1] by simp
    with Cons.IH [OF pl] eq show ?thesis by simp
  qed
qed

lemma platform_loop_completes:
  assumes "host_reliable host"
    and "\<forall>platform \<in> set platforms.
         \<forall>mapping \<in> set (active_mappings (art_mappings artifact) platform).
           \<exists>dir. resolveBaseDir artifact project (host_cwd host) mapping (pi_name platform)
                 = Inr dir"
  shows "\<exists>steps s'. platform_loop artifact project host
     (snd (plugin_loop (project_plugins project) metadata None)) platforms s
   = ((steps, None), s')"
  using assms(2)
proof (induction platforms arbitrary: s)
  case Nil
  then show ?case by simp
next
  case (Cons platform rest)
  let ?d = "snd (plugin_loop (project_plugins project) metadata None)"
  from Cons.prems have
    "\<forall>mapping \<in> set (active_mappings (art_mappings artifact) platform).
       \<exists>dir. resolveBaseDir artifact project (host_cwd host) mapping (pi_name platform)
             = Inr dir" by simp
  from generate_step_completes [OF assms(1) this] obtain step s1 where
    gs: "generate_step artifact project host ?d platform s = (Inr step, s1)" by blast
  from Cons.IH [of s1] Cons.prems obtain st s2 where
    "platform_loop artifact project host ?d rest s1 = ((st, None), s2)" by auto
  then show ?case using gs by simp
qed

lemma generate_steps:
  assumes "generate artifact project host metadata s = ((metadata', steps, outcome), s')"
  shows "map step_platform steps = take (length steps) (project_platforms project)
   \<and> (\<forall>step \<in> set steps. step_as_expected artifact project step)
   \<and> (outcome = None \<longrightarrow> map step_platform steps = project_platforms project)"
proof -
  obtain m d where pl: "plugin_loop (project_plugins project) metadata None = (m, d)"
    by (cases "plugin_loop (project_plugins project) metadata None")
  then have d: "d = snd (plugin_loop (project_plugins project) metadata None)" by simp
  obtain st r s1 where
    lp: "platform_loop artifact project host d (project_platforms project) s = ((st, r), s1)"
    by (cases "platform_loop artifact project host d (project_platforms project) s") auto
  from assms pl lp have eq: "steps = st" "outcome = None \<longrightarrow> r = None"
    by (auto simp: generate_def split: option.splits prod.splits)
  from platform_loop_steps [of artifact project host metadata "project_platforms project"
      s st r s1] lp d
  have "map step_platform st = take (length st) (project_platforms project)
   \<and> (\<forall>step \<in> set st. step_as_expected artifact project step)
   \<and> (r = None \<longrightarrow> length st = length (project_platforms project))" by simp
  with eq show ?thesis by auto
qed

lemma generate_completes:
  assumes "host_reliable host" and "dependencies_found artifact project (host_cwd host)"
  shows "\<exists>metadata' steps s'.
           generate artifact project host metadata s = ((metadata', steps, None), s')"
proof -
  obtain m d where pl: "plugin_loop (project_plugins project) metadata None = (m, d)"
    by (cases "plugin_loop (project_plugins project) metadata None")
  then have d: "d = snd (plugin_loop (project_plugins project) metadata None)" by simp
  from assms(2) have dep: "\<forall>platform \<in> set (project_platforms project).
         \<forall>mapping \<in> set (active_mappings (art_mappings artifact) platform).
           \<exists>dir. resolveBaseDir artifact project (host_cwd host) mapping (pi_name platform)
                 = Inr dir"
    by (simp add: dependencies_found_def)
  from platform_loop_completes [OF assms(1) dep, of metadata s] d obtain st s1 where
    lp: "platform_loop artifact project host d (project_platforms project) s = ((st, None), s1)"
    by auto
  from assms(1) obtain s2 where
    "host_writeFile host s1
       (join_path [project_distDir project, project_name project @ ''.json'']) = (None, s2)"
    unfolding host_reliable_def by blast
  then show ?thesis by (simp add: generate_def pl lp)
qed

lemma map_through:
  "\<forall>x \<in> set xs. f x = g (h x) \<Longrightarrow> map h xs = ys \<Longrightarrow> map f xs = map g ys"
  by auto

text \<open>
  C5, as the code has it.  In the round of every platform the id is
  \<^verbatim>\<open>project.renderTemplate\<close> applied to the id template and to an object whose only
  property is \<^verbatim>\<open>platform\<close>: the platform's name when platforms are specified,
  \<^verbatim>\<open>undefined\<close> otherwise.  The template is the configured id when it is a non-empty
  string, else the result of the recorded plugin's generator, else \<^verbatim>\<open>{name}-{platform}\<close>
  when platforms are specified and \<^verbatim>\<open>{name}\<close> otherwise.  The rounds that complete are
  those of the first platforms of the list, in order, and each carries that id; when
  \<^verbatim>\<open>generate\<close> raises nothing these are all the platforms.  \<^verbatim>\<open>generate\<close> raises nothing
  when the host's operations do not fail and every dependency package named by an active
  mapping is found.
\<close>

theorem generate_artifact_id:
  "round_id artifact project (snd (plugin_loop (project_plugins project) metadata None)) platform
     = Inr (renderTemplate project
              (expected_idTemplate (cfg_id (art_config artifact))
                 (recorded_generator (project_plugins project))
                 (platformSpecified project) platform)
              (Some [(''platform'',
                      if platformSpecified project then DString (pi_name platform)
                      else DUndefined)]))
   \<and> (generate artifact project host metadata s = ((metadata', steps, outcome), s') \<longrightarrow>
        map step_platform steps = take (length steps) (project_platforms project)
        \<and> (outcome = None \<longrightarrow> map step_platform steps = project_platforms project)
        \<and> map step_id steps =
            map (\<lambda>platform.
                   renderTemplate project
                     (expected_idTemplate (cfg_id (art_config artifact))
                        (recorded_generator (project_plugins project))
                        (platformSpecified project) platform)
                     (Some [(''platform'',
                             if platformSpecified project then DString (pi_name platform)
                             else DUndefined)]))
                (take (length steps) (project_platforms project)))
   \<and> (host_reliable host \<and> dependencies_found artifact project (host_cwd host) \<longrightarrow>
        (\<exists>metadata' steps s'.
           generate artifact project host metadata s = ((metadata', steps, None), s')))"
proof -
  have 1: "round_id artifact project (snd (plugin_loop (project_plugins project) metadata None))
       platform
     = Inr (renderTemplate project
              (expected_idTemplate (cfg_id (art_config artifact))
                 (recorded_generator (project_plugins project))
                 (platformSpecified project) platform)
              (Some [(''platform'',
                      if platformSpecified project then DString (pi_name platform)
                      else DUndefined)]))"
    by (rule round_id_recorded)
  have 2: "map step_platform steps = take (length steps) (project_platforms project)
        \<and> (outcome = None \<longrightarrow> map step_platform steps = project_platforms project)
        \<and> map step_id steps =
            map (\<lambda>platform.
                   renderTemplate project
                     (expected_idTemplate (cfg_id (art_config artifact))
                        (recorded_generator (project_plugins project))
                        (platformSpecified project) platform)
                     (Some [(''platform'',
                             if platformSpecified project then DString (pi_name platform)
                             else DUndefined)]))
                (take (length steps) (project_platforms project))"
    if g: "generate artifact project host metadata s = ((metadata', steps, outcome), s')"
  proof -
    note gs = generate_steps [OF g]
    from gs have ids: "\<forall>step \<in> set steps. step_id step =
               renderTemplate project
                 (expected_idTemplate (cfg_id (art_config artifact))
                    (recorded_generator (project_plugins project))
                    (platformSpecified project) (step_platform step))
                 (Some [(''platform'',
                         if platformSpecified project then DString (pi_name (step_platform step))
                         else DUndefined)])"
      by (simp add: step_as_expected_def)
    from gs have pf: "map step_platform steps = take (length steps) (project_platforms project)"
      by blast
    from gs have al:
      "outcome = None \<longrightarrow> map step_platform steps = project_platforms project"
      by blast
    from map_through [OF ids pf] pf al show ?thesis by blast
  qed
  have 3: "\<exists>metadata' steps s'.
           generate artifact project host metadata s = ((metadata', steps, None), s')"
    if "host_reliable host \<and> dependencies_found artifact project (host_cwd host)"
    using that generate_completes [of host artifact project metadata s] by blast
  from 1 2 3 show ?thesis by blast
qed

theorem generate_artifact_id_witness:
  "round_id
     \<lparr>art_config = \<lparr>cfg_id = None, cfg_targetDir = None, cfg_baseDir = None,
                    cfg_files = Some []\<rparr>,
      art_mappings = []\<rparr>
     \<lparr>project_name = ''app'', project_dir = ''/work/app'', project_distDir = ''/work/app/dist'',
      project_plugins =
        [\<lparr>processArtifactMetadata = None, getDefaultArtifactId = Some (\<lambda>p. ''first'')\<rparr>,
         \<lparr>processArtifactMetadata = None,
          getDefaultArtifactId =
            Some (\<lambda>p. case p of None \<Rightarrow> ''second'' | Some q \<Rightarrow> ''second-'' @ pi_name q)\<rparr>,
         \<lparr>processArtifactMetadata = None, getDefaultArtifactId = None\<rparr>],
      project_platforms =
        [\<lparr>pi_name = ''linux'', pi_env = None, pi_data = None\<rparr>,
         \<lparr>pi_name = ''win32'', pi_env = None, pi_data = None\<rparr>],
      platformSpecified = True,
      dependencyDirMap = (\<lambda>name. None),
      renderTemplate = (\<lambda>template data. template)\<rparr>
     (snd (plugin_loop
        [\<lparr>processArtifactMetadata = None, getDefaultArtifactId = Some (\<lambda>p. ''first'')\<rparr>,
         \<lparr>processArtifactMetadata = None,
          getDefaultArtifactId =
            Some (\<lambda>p. case p of None \<Rightarrow> ''second'' | Some q \<Rightarrow> ''second-'' @ pi_name q)\<rparr>,
         \<lparr>processArtifactMetadata = None, getDefaultArtifactId = None\<rparr>] () None))
     \<lparr>pi_name = ''linux'', pi_env = None, pi_data = None\<rparr>
   = Inr ''second-linux''
   \<and> (\<exists>metadata' steps s'.
       generate
         \<lparr>art_config = \<lparr>cfg_id = None, cfg_targetDir = None, cfg_baseDir = None,
                        cfg_files = Some []\<rparr>,
          art_mappings = []\<rparr>
         \<lparr>project_name = ''app'', project_dir = ''/work/app'',
          project_distDir = ''/work/app/dist'',
          project_plugins =
            [\<lparr>processArtifactMetadata = None, getDefaultArtifactId = Some (\<lambda>p. ''first'')\<rparr>,
             \<lparr>processArtifactMetadata = None,
              getDefaultArtifactId =
                Some (\<lambda>p. case p of None \<Rightarrow> ''second'' | Some q \<Rightarrow> ''second-'' @ pi_name q)\<rparr>,
             \<lparr>processArtifactMetadata = None, getDefaultArtifactId = None\<rparr>],
          project_platforms =
            [\<lparr>pi_name = ''linux'', pi_env = None, pi_data = None\<rparr>,
             \<lparr>pi_name = ''win32'', pi_env = None, pi_data = None\<rparr>],
          platformSpecified = True,
          dependencyDirMap = (\<lambda>name. None),
          renderTemplate = (\<lambda>template data. template)\<rparr>
         \<lparr>host_cwd = ''/work'',
          host_walk = (\<lambda>s pattern baseDir. (Inr [], s)),
          host_writeArchive = (\<lambda>s file entries. (None, s)),
          host_writeFile = (\<lambda>s file. (None, s))\<rparr>
         () ()
       = ((metadata', steps, None), s')
       \<and> map step_id steps = [''second-linux'', ''second-win32''])"
proof -
  let ?p1 = "\<lparr>processArtifactMetadata = None :: (unit \<Rightarrow> unit) option,
              getDefaultArtifactId = Some (\<lambda>p. ''first'')\<rparr>"
  let ?p2 = "\<lparr>processArtifactMetadata = None :: (unit \<Rightarrow> unit) option,
              getDefaultArtifactId =
                Some (\<lambda>p. case p of None \<Rightarrow> ''second'' | Some q \<Rightarrow> ''second-'' @ pi_name q)\<rparr>"
  let ?p3 = "\<lparr>processArtifactMetadata = None :: (unit \<Rightarrow> unit) option,
              getDefaultArtifactId = None\<rparr>"
  let ?linux = "\<lparr>pi_name = ''linux'', pi_env = None, pi_data = None\<rparr>"
  let ?win32 = "\<lparr>pi_name = ''win32'', pi_env = None, pi_data = None\<rparr>"
  let ?a = "\<lparr>art_config = \<lparr>cfg_id = None, cfg_targetDir = None, cfg_baseDir = None,
                            cfg_files = Some []\<rparr>,
             art_mappings = []\<rparr>"
  let ?p = "\<lparr>project_name = ''app'', project_dir = ''/work/app'',
             project_distDir = ''/work/app/dist'',
             project_plugins = [?p1, ?p2, ?p3],
             project_platforms = [?linux, ?win32],
             platformSpecified = True,
             dependencyDirMap = (\<lambda>name. None),
             renderTemplate = (\<lambda>template data. template)\<rparr>"
  let ?h = "\<lparr>host_cwd = ''/work'',
             host_walk = (\<lambda>(s :: unit) pattern baseDir. (Inr [], s)),
             host_writeArchive = (\<lambda>s file entries. (None, s)),
             host_writeFile = (\<lambda>s file. (None, s))\<rparr>"
  let ?f = "\<lambda>platform. renderTemplate ?p
              (expected_idTemplate (cfg_id (art_config ?a))
                 (recorded_generator (project_plugins ?p))
                 (platformSpecified ?p) platform)
              (Some [(''platform'',
                      if platformSpecified ?p then DString (pi_name platform)
                      else DUndefined)])"
  have hr: "host_reliable ?h" by (simp add: host_reliable_def)
  have df: "dependencies_found ?a ?p (host_cwd ?h)"
    by (simp add: dependencies_found_def active_mappings_def)
  have f: "?f ?linux = ''second-linux''" "?f ?win32 = ''second-win32''"
    by (simp_all add: expected_idTemplate_def recorded_generator_def plugins_with_generator_def
        truthy_def)
  note t = generate_artifact_id
    [where artifact = ?a and project = ?p and host = ?h and metadata = "()" and s = "()"]
  from t [where platform = ?linux] have
    "round_id ?a ?p (snd (plugin_loop (project_plugins ?p) () None)) ?linux = Inr (?f ?linux)"
    by blast
  then have 1: "round_id ?a ?p (snd (plugin_loop [?p1, ?p2, ?p3] () None)) ?linux
                = Inr ''second-linux''"
    using f(1) by simp
  from t hr df obtain m st s' where
    g: "generate ?a ?p ?h () () = ((m, st, None), s')" by blast
  from t [where metadata' = m and steps = st and outcome = None and s' = s'] g
  have sp: "map step_platform st = project_platforms ?p"
    and si: "map step_id st = map ?f (take (length st) (project_platforms ?p))"
    by blast+
  from sp have "length st = 2" using length_map [of step_platform st] by simp
  with si f have ids: "map step_id st = [''second-linux'', ''second-win32'']" by simp
  show ?thesis by (intro conjI exI) (rule 1, rule g, rule ids)
qed

text \<open>
  The object rendered against holds no variable of the platform, and no platform name
  when platforms are not specified; the variables are part of the object built in
  \<^verbatim>\<open>walk\<close> for the templates of a mapping.  The last conjunct runs \<^verbatim>\<open>generate\<close> on a
  project whose \<^verbatim>\<open>renderTemplate\<close> returns the property names of the object it is
  given.
\<close>

theorem artifact_id_data_counterexample:
  "id_data True
     \<lparr>pi_name = ''linux'', pi_env = None, pi_data = Some [(''arch'', js_string ''x64'')]\<rparr>
     = [(''platform'', DString ''linux'')]
   \<and> ''arch'' \<notin> set (map fst (id_data True
     \<lparr>pi_name = ''linux'', pi_env = None, pi_data = Some [(''arch'', js_string ''x64'')]\<rparr>))
   \<and> id_data False
     \<lparr>pi_name = ''linux'', pi_env = None, pi_data = Some [(''arch'', js_string ''x64'')]\<rparr>
     = [(''platform'', DUndefined)]
   \<and> (case generate
         \<lparr>art_config = \<lparr>cfg_id = Some ''{arch}'', cfg_targetDir = None, cfg_baseDir = None,
                        cfg_files = Some []\<rparr>,
          art_mappings = []\<rparr>
         \<lparr>project_name = ''app'', project_dir = ''/work/app'',
          project_distDir = ''/work/app/dist'',
          project_plugins = [],
          project_platforms =
            [\<lparr>pi_name = ''linux'', pi_env = None,
              pi_data = Some [(''arch'', js_string ''x64'')]\<rparr>],
          platformSpecified = True,
          dependencyDirMap = (\<lambda>name. None),
          renderTemplate =
            (\<lambda>template data. case data of
                                None \<Rightarrow> []
                              | Some properties \<Rightarrow> join_with '','' (map fst properties))\<rparr>
         \<lparr>host_cwd = ''/work'',
          host_walk = (\<lambda>s pattern baseDir. (Inr [], s)),
          host_writeArchive = (\<lambda>s file entries. (None, s)),
          host_writeFile = (\<lambda>s file. (None, s))\<rparr>
         () ()
       of ((metadata', steps, outcome), s') \<Rightarrow> (map step_id steps, outcome))
     = ([''platform''], None)"
  by (simp add: id_data_def generate_def generate_step_def round_id_def
      idTemplate_of_def active_mappings_def)

text \<open>
  C9.  The mappings \<^verbatim>\<open>generate\<close> hands to \<^verbatim>\<open>walk\<close> in the round of a platform are the
  normalised mappings, in order, that have no platform set or whose platform set contains
  the platform's name; a mapping without a platform set is among them for every platform.
  \<^verbatim>\<open>walk\<close> goes through them in order, through all of them unless an exception ends it.
  A round that completes has gone through exactly these mappings, so a normalised
  mapping is among the mappings of such a round exactly under that condition.  The
  rounds that complete are those of the first platforms of the list, all of them when
  \<^verbatim>\<open>generate\<close> raises nothing, which is so when the host's operations do not fail and
  every dependency package named by an active mapping is found.
\<close>

theorem generate_active_mappings:
  "active_mappings mappings platform =
     filter (\<lambda>m. fm_platformSet m = None
                  \<or> (\<exists>S. fm_platformSet m = Some S \<and> pi_name platform \<in> S)) mappings
   \<and> (m \<in> set mappings \<and> fm_platformSet m = None \<longrightarrow>
        m \<in> set (active_mappings mappings platform))
   \<and> (walk artifact project host platform (active_mappings (art_mappings artifact) platform) s0
         = ((walked, r), s1) \<longrightarrow>
        map fst walked
          = take (length walked) (active_mappings (art_mappings artifact) platform)
        \<and> (r = None \<longrightarrow>
             map fst walked = active_mappings (art_mappings artifact) platform))
   \<and> (generate artifact project host metadata s = ((metadata', steps, outcome), s') \<longrightarrow>
        map step_platform steps = take (length steps) (project_platforms project)
        \<and> (outcome = None \<longrightarrow> map step_platform steps = project_platforms project)
        \<and> (\<forall>step \<in> set steps.
              map fst (step_walked step) =
                filter (\<lambda>m. fm_platformSet m = None
                             \<or> (\<exists>S. fm_platformSet m = Some S
                                     \<and> pi_name (step_platform step) \<in> S))
                  (art_mappings artifact))
        \<and> (\<forall>step \<in> set steps. \<forall>m \<in> set (art_mappings artifact).
              m \<in> fst ` set (step_walked step) \<longleftrightarrow>
                fm_platformSet m = None
                \<or> (\<exists>S. fm_platformSet m = Some S \<and> pi_name (step_platform step) \<in> S)))
   \<and> (host_reliable host \<and> dependencies_found artifact project (host_cwd host) \<longrightarrow>
        (\<exists>metadata' steps s'.
           generate artifact project host metadata s = ((metadata', steps, None), s')))"
proof -
  have 1: "active_mappings mappings platform =
     filter (\<lambda>m. fm_platformSet m = None
                  \<or> (\<exists>S. fm_platformSet m = Some S \<and> pi_name platform \<in> S)) mappings"
    by (rule active_mappings_filter)
  have 2: "m \<in> set (active_mappings mappings platform)"
    if "m \<in> set mappings \<and> fm_platformSet m = None"
    using that by (simp add: active_mappings_def)
  have 3: "map fst walked
          = take (length walked) (active_mappings (art_mappings artifact) platform)
        \<and> (r = None \<longrightarrow>
             map fst walked = active_mappings (art_mappings artifact) platform)"
    if w: "walk artifact project host platform
             (active_mappings (art_mappings artifact) platform) s0 = ((walked, r), s1)"
    using walk_prefix [OF w] by simp
  have 4: "map step_platform steps = take (length steps) (project_platforms project)
        \<and> (outcome = None \<longrightarrow> map step_platform steps = project_platforms project)
        \<and> (\<forall>step \<in> set steps.
              map fst (step_walked step) =
                filter (\<lambda>m. fm_platformSet m = None
                             \<or> (\<exists>S. fm_platformSet m = Some S
                                     \<and> pi_name (step_platform step) \<in> S))
                  (art_mappings artifact))
        \<and> (\<forall>step \<in> set steps. \<forall>m \<in> set (art_mappings artifact).
              m \<in> fst ` set (step_walked step) \<longleftrightarrow>
                fm_platformSet m = None
                \<or> (\<exists>S. fm_platformSet m = Some S \<and> pi_name (step_platform step) \<in> S))"
    if g: "generate artifact project host metadata s = ((metadata', steps, outcome), s')"
  proof -
    note gs = generate_steps [OF g]
    from gs have pf: "map step_platform steps = take (length steps) (project_platforms project)"
      by blast
    from gs have al:
      "outcome = None \<longrightarrow> map step_platform steps = project_platforms project"
      by blast
    from gs have wk: "\<forall>step \<in> set steps.
              map fst (step_walked step) =
                filter (\<lambda>m. fm_platformSet m = None
                             \<or> (\<exists>S. fm_platformSet m = Some S
                                     \<and> pi_name (step_platform step) \<in> S))
                  (art_mappings artifact)"
      by (simp add: step_as_expected_def active_mappings_filter)
    have mem: "\<forall>step \<in> set steps. \<forall>m \<in> set (art_mappings artifact).
              m \<in> fst ` set (step_walked step) \<longleftrightarrow>
                fm_platformSet m = None
                \<or> (\<exists>S. fm_platformSet m = Some S \<and> pi_name (step_platform step) \<in> S)"
    proof (intro ballI)
      fix step m
      assume st: "step \<in> set steps" and m: "m \<in> set (art_mappings artifact)"
      have "fst ` set (step_walked step) = set (map fst (step_walked step))" by simp
      also have "\<dots> = set (filter (\<lambda>m. fm_platformSet m = None
                             \<or> (\<exists>S. fm_platformSet m = Some S
                                     \<and> pi_name (step_platform step) \<in> S))
                  (art_mappings artifact))"
        using wk st by simp
      finally show "m \<in> fst ` set (step_walked step) \<longleftrightarrow>
                fm_platformSet m = None
                \<or> (\<exists>S. fm_platformSet m = Some S \<and> pi_name (step_platform step) \<in> S)"
        using m by simp
    qed
    from pf al wk mem show ?thesis by blast
  qed
  have 5: "\<exists>metadata' steps s'.
           generate artifact project host metadata s = ((metadata', steps, None), s')"
    if "host_reliable host \<and> dependencies_found artifact project (host_cwd host)"
    using that generate_completes [of host artifact project metadata s] by blast
  from 1 2 3 4 5 show ?thesis by blast
qed

theorem generate_active_mappings_witness:
  "(\<exists>metadata' steps s'.
     generate
       \<lparr>art_config = \<lparr>cfg_id = None, cfg_targetDir = None, cfg_baseDir = None,
                      cfg_files =
                        Some [ConfigString ''a'',
                              ConfigDescriptor
                              \<lparr>fd_pattern = Some ''b'', fd_baseDir = None, fd_package = None,
                               fd_path = None, fd_platform = Some ''linux'',
                               fd_platforms = None\<rparr>]\<rparr>,
        art_mappings =
          [\<lparr>fm_package = None, fm_baseDir = None, fm_pattern = ''a'', fm_path = ''a'',
            fm_platformSet = None\<rparr>,
           \<lparr>fm_package = None, fm_baseDir = None, fm_pattern = ''b'', fm_path = ''b'',
            fm_platformSet = Some {''linux''}\<rparr>]\<rparr>
       \<lparr>project_name = ''app'', project_dir = ''/work/app'',
        project_distDir = ''/work/app/dist'',
        project_plugins = [],
        project_platforms =
          [\<lparr>pi_name = ''linux'', pi_env = None, pi_data = None\<rparr>,
           \<lparr>pi_name = ''win32'', pi_env = None, pi_data = None\<rparr>],
        platformSpecified = True,
        dependencyDirMap = (\<lambda>name. None),
        renderTemplate = (\<lambda>template data. template)\<rparr>
       \<lparr>host_cwd = ''/work'',
        host_walk = (\<lambda>s pattern baseDir. (Inr [(pattern, [])], s)),
        host_writeArchive = (\<lambda>s file entries. (None, s)),
        host_writeFile = (\<lambda>s file. (None, s))\<rparr>
       () ()
     = ((metadata', steps, None), s')
     \<and> map (\<lambda>step. map fst (step_walked step)) steps =
         [[\<lparr>fm_package = None, fm_baseDir = None, fm_pattern = ''a'', fm_path = ''a'',
            fm_platformSet = None\<rparr>,
           \<lparr>fm_package = None, fm_baseDir = None, fm_pattern = ''b'', fm_path = ''b'',
            fm_platformSet = Some {''linux''}\<rparr>],
          [\<lparr>fm_package = None, fm_baseDir = None, fm_pattern = ''a'', fm_path = ''a'',
            fm_platformSet = None\<rparr>]])
   \<and> (case generate
         \<lparr>art_config = \<lparr>cfg_id = None, cfg_targetDir = None, cfg_baseDir = None,
                        cfg_files =
                          Some [ConfigString ''a'',
                                ConfigDescriptor
                                \<lparr>fd_pattern = Some ''c'', fd_baseDir = None,
                                 fd_package = Some ''no-such-package'', fd_path = None,
                                 fd_platform = Some ''win32'', fd_platforms = None\<rparr>]\<rparr>,
          art_mappings =
            [\<lparr>fm_package = None, fm_baseDir = None, fm_pattern = ''a'', fm_path = ''a'',
              fm_platformSet = None\<rparr>,
             \<lparr>fm_package = Some ''no-such-package'', fm_baseDir = None, fm_pattern = ''c'',
              fm_path = ''c'', fm_platformSet = Some {''win32''}\<rparr>]\<rparr>
         \<lparr>project_name = ''app'', project_dir = ''/work/app'',
          project_distDir = ''/work/app/dist'',
          project_plugins = [],
          project_platforms =
            [\<lparr>pi_name = ''linux'', pi_env = None, pi_data = None\<rparr>,
             \<lparr>pi_name = ''win32'', pi_env = None, pi_data = None\<rparr>],
          platformSpecified = True,
          dependencyDirMap = (\<lambda>name. None),
          renderTemplate = (\<lambda>template data. template)\<rparr>
         \<lparr>host_cwd = ''/work'',
          host_walk = (\<lambda>s pattern baseDir. (Inr [(pattern, [])], s)),
          host_writeArchive = (\<lambda>s file entries. (None, s)),
          host_writeFile = (\<lambda>s file. (None, s))\<rparr>
         () ()
       of ((metadata', steps, outcome), s') \<Rightarrow>
         (map (\<lambda>step. map fm_pattern (map fst (step_walked step))) steps, outcome))
     = ([[''a'']], Some (DependencyNotFound ''no-such-package''))
   \<and> map_sum id art_mappings
         (new_Artifact
            \<lparr>cfg_id = None, cfg_targetDir = None, cfg_baseDir = None,
             cfg_files =
               Some [ConfigString ''a'',
                     ConfigDescriptor
                       \<lparr>fd_pattern = Some ''b'', fd_baseDir = None, fd_package = None,
                        fd_path = None, fd_platform = Some ''linux'',
                        fd_platforms = None\<rparr>]\<rparr>)
       = Inr [\<lparr>fm_package = None, fm_baseDir = None, fm_pattern = ''a'', fm_path = ''a'',
                fm_platformSet = None\<rparr>,
              \<lparr>fm_package = None, fm_baseDir = None, fm_pattern = ''b'', fm_path = ''b'',
                fm_platformSet = Some {''linux''}\<rparr>]
   \<and> map_sum id art_mappings
         (new_Artifact
            \<lparr>cfg_id = None, cfg_targetDir = None, cfg_baseDir = None,
             cfg_files =
               Some [ConfigString ''a'',
                     ConfigDescriptor
                       \<lparr>fd_pattern = Some ''c'', fd_baseDir = None,
                        fd_package = Some ''no-such-package'', fd_path = None,
                        fd_platform = Some ''win32'', fd_platforms = None\<rparr>]\<rparr>)
       = Inr [\<lparr>fm_package = None, fm_baseDir = None, fm_pattern = ''a'', fm_path = ''a'',
                fm_platformSet = None\<rparr>,
              \<lparr>fm_package = Some ''no-such-package'', fm_baseDir = None, fm_pattern = ''c'',
                fm_path = ''c'', fm_platformSet = Some {''win32''}\<rparr>]"
proof -
  let ?ma = "\<lparr>fm_package = None, fm_baseDir = None, fm_pattern = ''a'', fm_path = ''a'',
              fm_platformSet = None\<rparr>"
  let ?mb = "\<lparr>fm_package = None, fm_baseDir = None, fm_pattern = ''b'', fm_path = ''b'',
              fm_platformSet = Some {''linux''}\<rparr>"
  let ?mc = "\<lparr>fm_package = Some ''no-such-package'', fm_baseDir = None, fm_pattern = ''c'',
              fm_path = ''c'', fm_platformSet = Some {''win32''}\<rparr>"
  let ?linux = "\<lparr>pi_name = ''linux'', pi_env = None, pi_data = None\<rparr>"
  let ?win32 = "\<lparr>pi_name = ''win32'', pi_env = None, pi_data = None\<rparr>"
  let ?c = "\<lparr>cfg_id = None, cfg_targetDir = None, cfg_baseDir = None,
             cfg_files =
               Some [ConfigString ''a'',
                     ConfigDescriptor
                       \<lparr>fd_pattern = Some ''b'', fd_baseDir = None, fd_package = None,
                        fd_path = None, fd_platform = Some ''linux'',
                        fd_platforms = None\<rparr>]\<rparr>"
  let ?c' = "\<lparr>cfg_id = None, cfg_targetDir = None, cfg_baseDir = None,
              cfg_files =
                Some [ConfigString ''a'',
                      ConfigDescriptor
                        \<lparr>fd_pattern = Some ''c'', fd_baseDir = None,
                         fd_package = Some ''no-such-package'', fd_path = None,
                         fd_platform = Some ''win32'', fd_platforms = None\<rparr>]\<rparr>"
  let ?a = "\<lparr>art_config = ?c, art_mappings = [?ma, ?mb]\<rparr>"
  let ?a' = "\<lparr>art_config = ?c', art_mappings = [?ma, ?mc]\<rparr>"
  let ?p = "\<lparr>project_name = ''app'', project_dir = ''/work/app'',
             project_distDir = ''/work/app/dist'',
             project_plugins = [] :: unit Plugin list,
             project_platforms = [?linux, ?win32],
             platformSpecified = True,
             dependencyDirMap = (\<lambda>name. None),
             renderTemplate = (\<lambda>template data. template)\<rparr>"
  let ?h = "\<lparr>host_cwd = ''/work'',
             host_walk = (\<lambda>(s :: unit) pattern baseDir. (Inr [(pattern, [])], s)),
             host_writeArchive = (\<lambda>s file entries. (None, s)),
             host_writeFile = (\<lambda>s file. (None, s))\<rparr>"
  let ?f = "\<lambda>platform. filter (\<lambda>m. fm_platformSet m = None
                             \<or> (\<exists>S. fm_platformSet m = Some S \<and> pi_name platform \<in> S))
                  (art_mappings ?a)"
  have hr: "host_reliable ?h" by (simp add: host_reliable_def)
  have df: "dependencies_found ?a ?p (host_cwd ?h)"
    by (simp add: dependencies_found_def active_mappings_def resolveBaseDir_def
        truthy_value_def truthy_def)
  have f: "?f ?linux = [?ma, ?mb]" "?f ?win32 = [?ma]" by simp_all
  note t = generate_active_mappings
    [where artifact = ?a and project = ?p and host = ?h and metadata = "()" and s = "()"]
  note t5 = t [THEN conjunct2, THEN conjunct2, THEN conjunct2, THEN conjunct2]
  from t5 hr df obtain m st s' where
    g: "generate ?a ?p ?h () () = ((m, st, None), s')" by blast
  note t4 = t [where metadata' = m and steps = st and outcome = None and s' = s',
      THEN conjunct2, THEN conjunct2, THEN conjunct2, THEN conjunct1]
  from t4 g
  have sp: "map step_platform st = project_platforms ?p"
    and sw: "\<forall>step \<in> set st. map fst (step_walked step) = ?f (step_platform step)"
    by blast+
  from sp have sp': "map step_platform st = [?linux, ?win32]" by simp
  then obtain s1 s2 where st: "st = [s1, s2]" by auto
  from sp' st have pl: "step_platform s1 = ?linux" "step_platform s2 = ?win32" by simp_all
  from sw st have "map fst (step_walked s1) = ?f (step_platform s1)"
    "map fst (step_walked s2) = ?f (step_platform s2)" by simp_all
  with pl f have "map fst (step_walked s1) = [?ma, ?mb]" "map fst (step_walked s2) = [?ma]"
    by simp_all
  with st have w: "map (\<lambda>step. map fst (step_walked step)) st = [[?ma, ?mb], [?ma]]" by simp
  have 1: "\<exists>metadata' steps s'.
     generate ?a ?p ?h () () = ((metadata', steps, None), s')
     \<and> map (\<lambda>step. map fst (step_walked step)) steps = [[?ma, ?mb], [?ma]]"
    by (intro conjI exI) (rule g, rule w)
  have 2: "(case generate ?a' ?p ?h () () of ((metadata', steps, outcome), s') \<Rightarrow>
         (map (\<lambda>step. map fm_pattern (map fst (step_walked step))) steps, outcome))
     = ([[''a'']], Some (DependencyNotFound ''no-such-package''))"
    by (simp add: generate_def generate_step_def round_id_def idTemplate_of_def
        default_idTemplate_def active_mappings_def walk_mapping_def resolveBaseDir_def
        dependencyDir_def truthy_value_def truthy_def Let_def)
  have 3: "map_sum id art_mappings (new_Artifact ?c) = Inr [?ma, ?mb]" by code_simp
  have 4: "map_sum id art_mappings (new_Artifact ?c') = Inr [?ma, ?mc]" by code_simp
  from 1 2 3 4 show ?thesis by (intro conjI)
qed

text \<open>
  C10.  After the plugin loop, \<^verbatim>\<open>defaultIdPlugin\<close> is the last plugin of the list that
  exposes \<^verbatim>\<open>getDefaultArtifactId\<close> (none when no plugin does).  Whatever comes before that
  plugin in the list, the default id template is the result of its generator; when no id
  is configured, the id of every round is rendered from that result, and so are the ids
  of the rounds \<^verbatim>\<open>generate\<close> completes (those of the first platforms of the list, all of
  them when it raises nothing).
\<close>

theorem defaultIdPlugin_is_last:
  "snd (plugin_loop plugins metadata None) =
     (if plugins_with_generator plugins = [] then None
      else Some (last (plugins_with_generator plugins)))
   \<and> (getDefaultArtifactId p = Some g \<and> (\<forall>q \<in> set later. getDefaultArtifactId q = None) \<longrightarrow>
        snd (plugin_loop (earlier @ p # later) metadata None) = Some p
        \<and> default_idTemplate (snd (plugin_loop (earlier @ p # later) metadata None))
              specified platform
            = Inr (g (if specified then Some platform else None)))
   \<and> (getDefaultArtifactId p = Some g \<and> (\<forall>q \<in> set later. getDefaultArtifactId q = None)
        \<and> project_plugins project = earlier @ p # later
        \<and> \<not> truthy (cfg_id (art_config artifact)) \<longrightarrow>
        round_id artifact project
            (snd (plugin_loop (project_plugins project) metadata None)) platform
          = Inr (renderTemplate project
                   (g (if platformSpecified project then Some platform else None))
                   (Some (id_data (platformSpecified project) platform)))
        \<and> (generate artifact project host metadata s = ((metadata', steps, outcome), s') \<longrightarrow>
             map step_id steps =
               map (\<lambda>platform.
                      renderTemplate project
                        (g (if platformSpecified project then Some platform else None))
                        (Some (id_data (platformSpecified project) platform)))
                   (take (length steps) (project_platforms project))
             \<and> (outcome = None \<longrightarrow> length steps = length (project_platforms project))))"
proof -
  have sel: "plugins_with_generator (earlier @ p # later) = plugins_with_generator earlier @ [p]"
    if "getDefaultArtifactId p = Some g" "\<forall>q \<in> set later. getDefaultArtifactId q = None"
    using that by (auto simp: plugins_with_generator_def)
  have a: "snd (plugin_loop (earlier @ p # later) metadata None) = Some p"
    if "getDefaultArtifactId p = Some g" "\<forall>q \<in> set later. getDefaultArtifactId q = None"
    using sel [OF that] by (simp add: plugin_loop_last)
  have b: "recorded_generator (earlier @ p # later) = Some g"
    if "getDefaultArtifactId p = Some g" "\<forall>q \<in> set later. getDefaultArtifactId q = None"
    using sel [OF that] that by (simp add: recorded_generator_def)
  have 1: "snd (plugin_loop plugins metadata None) =
     (if plugins_with_generator plugins = [] then None
      else Some (last (plugins_with_generator plugins)))"
    by (rule plugin_loop_last)
  have 2: "getDefaultArtifactId p = Some g \<and> (\<forall>q \<in> set later. getDefaultArtifactId q = None) \<longrightarrow>
        snd (plugin_loop (earlier @ p # later) metadata None) = Some p
        \<and> default_idTemplate (snd (plugin_loop (earlier @ p # later) metadata None))
              specified platform
            = Inr (g (if specified then Some platform else None))"
    using a by (auto simp: default_idTemplate_def)
  have 3: "round_id artifact project
            (snd (plugin_loop (project_plugins project) metadata None)) platform
          = Inr (renderTemplate project
                   (g (if platformSpecified project then Some platform else None))
                   (Some (id_data (platformSpecified project) platform)))
        \<and> (generate artifact project host metadata s = ((metadata', steps, outcome), s') \<longrightarrow>
             map step_id steps =
               map (\<lambda>platform.
                      renderTemplate project
                        (g (if platformSpecified project then Some platform else None))
                        (Some (id_data (platformSpecified project) platform)))
                   (take (length steps) (project_platforms project))
             \<and> (outcome = None \<longrightarrow> length steps = length (project_platforms project)))"
    if h: "getDefaultArtifactId p = Some g \<and> (\<forall>q \<in> set later. getDefaultArtifactId q = None)
        \<and> project_plugins project = earlier @ p # later
        \<and> \<not> truthy (cfg_id (art_config artifact))"
  proof -
    from h b have rg: "recorded_generator (project_plugins project) = Some g" by simp
    have tpl: "expected_idTemplate (cfg_id (art_config artifact))
                 (recorded_generator (project_plugins project))
                 (platformSpecified project) q
               = g (if platformSpecified project then Some q else None)" for q
      using h rg by (simp add: expected_idTemplate_def)
    have r: "round_id artifact project
            (snd (plugin_loop (project_plugins project) metadata None)) platform
          = Inr (renderTemplate project
                   (g (if platformSpecified project then Some platform else None))
                   (Some (id_data (platformSpecified project) platform)))"
      by (simp add: round_id_recorded tpl id_data_def)
    have gen: "map step_id steps =
               map (\<lambda>platform.
                      renderTemplate project
                        (g (if platformSpecified project then Some platform else None))
                        (Some (id_data (platformSpecified project) platform)))
                   (take (length steps) (project_platforms project))
             \<and> (outcome = None \<longrightarrow> length steps = length (project_platforms project))"
      if gg: "generate artifact project host metadata s = ((metadata', steps, outcome), s')"
    proof -
      note gs = generate_steps [OF gg]
      from gs have ids: "\<forall>step \<in> set steps. step_id step =
               renderTemplate project
                 (g (if platformSpecified project then Some (step_platform step) else None))
                 (Some (id_data (platformSpecified project) (step_platform step)))"
        by (simp add: step_as_expected_def tpl id_data_def)
      from gs have pf:
        "map step_platform steps = take (length steps) (project_platforms project)"
        by blast
      from gs have al:
        "outcome = None \<longrightarrow> map step_platform steps = project_platforms project"
        by blast
      have len: "outcome = None \<longrightarrow> length steps = length (project_platforms project)"
      proof
        assume "outcome = None"
        with al have "map step_platform steps = project_platforms project" by simp
        then have "length (map step_platform steps) = length (project_platforms project)"
          by simp
        then show "length steps = length (project_platforms project)" by simp
      qed
      from map_through [OF ids pf] len show ?thesis by blast
    qed
    from r gen show ?thesis by blast
  qed
  from 1 2 3 show ?thesis by blast
qed

theorem defaultIdPlugin_is_last_witness:
  "snd (plugin_loop
     [\<lparr>processArtifactMetadata = None, getDefaultArtifactId = Some (\<lambda>p. ''first'')\<rparr>,
      \<lparr>processArtifactMetadata = None, getDefaultArtifactId = Some (\<lambda>p. ''second'')\<rparr>,
      \<lparr>processArtifactMetadata = None, getDefaultArtifactId = None\<rparr>] () None)
   = Some \<lparr>processArtifactMetadata = None, getDefaultArtifactId = Some (\<lambda>p. ''second'')\<rparr>
   \<and> round_id
        \<lparr>art_config = \<lparr>cfg_id = Some [], cfg_targetDir = None, cfg_baseDir = None,
                       cfg_files = Some []\<rparr>,
         art_mappings = []\<rparr>
        \<lparr>project_name = ''app'', project_dir = ''/work/app'',
         project_distDir = ''/work/app/dist'',
         project_plugins =
           [\<lparr>processArtifactMetadata = None, getDefaultArtifactId = Some (\<lambda>p. ''first'')\<rparr>,
            \<lparr>processArtifactMetadata = None, getDefaultArtifactId = Some (\<lambda>p. ''second'')\<rparr>,
            \<lparr>processArtifactMetadata = None, getDefaultArtifactId = None\<rparr>],
         project_platforms = [\<lparr>pi_name = ''linux'', pi_env = None, pi_data = None\<rparr>],
         platformSpecified = False,
         dependencyDirMap = (\<lambda>name. None),
         renderTemplate = (\<lambda>template data. template)\<rparr>
        (snd (plugin_loop
           [\<lparr>processArtifactMetadata = None, getDefaultArtifactId = Some (\<lambda>p. ''first'')\<rparr>,
            \<lparr>processArtifactMetadata = None, getDefaultArtifactId = Some (\<lambda>p. ''second'')\<rparr>,
            \<lparr>processArtifactMetadata = None, getDefaultArtifactId = None\<rparr>] () None))
        \<lparr>pi_name = ''linux'', pi_env = None, pi_data = None\<rparr>
      = Inr ''second''
   \<and> (case generate
           \<lparr>art_config = \<lparr>cfg_id = Some [], cfg_targetDir = None, cfg_baseDir = None,
                          cfg_files = Some []\<rparr>,
            art_mappings = []\<rparr>
           \<lparr>project_name = ''app'', project_dir = ''/work/app'',
            project_distDir = ''/work/app/dist'',
            project_plugins =
              [\<lparr>processArtifactMetadata = None, getDefaultArtifactId = Some (\<lambda>p. ''first'')\<rparr>,
               \<lparr>processArtifactMetadata = None, getDefaultArtifactId = Some (\<lambda>p. ''second'')\<rparr>,
               \<lparr>processArtifactMetadata = None, getDefaultArtifactId = None\<rparr>],
            project_platforms = [\<lparr>pi_name = ''linux'', pi_env = None, pi_data = None\<rparr>],
            platformSpecified = False,
            dependencyDirMap = (\<lambda>name. None),
            renderTemplate = (\<lambda>template data. template)\<rparr>
           \<lparr>host_cwd = ''/work'',
            host_walk = (\<lambda>s pattern baseDir. (Inr [], s)),
            host_writeArchive = (\<lambda>s file entries. (None, s)),
            host_writeFile = (\<lambda>s file. (None, s))\<rparr>
           () ()
        of ((metadata', steps, outcome), s') \<Rightarrow> (map step_id steps, outcome))
      = ([''second''], None)"
proof -
  let ?p1 = "\<lparr>processArtifactMetadata = None :: (unit \<Rightarrow> unit) option,
              getDefaultArtifactId = Some (\<lambda>p. ''first'')\<rparr>"
  let ?p2 = "\<lparr>processArtifactMetadata = None :: (unit \<Rightarrow> unit) option,
              getDefaultArtifactId = Some (\<lambda>p. ''second'')\<rparr>"
  let ?p3 = "\<lparr>processArtifactMetadata = None :: (unit \<Rightarrow> unit) option,
              getDefaultArtifactId = None\<rparr>"
  let ?linux = "\<lparr>pi_name = ''linux'', pi_env = None, pi_data = None\<rparr>"
  let ?a = "\<lparr>art_config = \<lparr>cfg_id = Some [], cfg_targetDir = None, cfg_baseDir = None,
                            cfg_files = Some []\<rparr>,
             art_mappings = []\<rparr>"
  let ?project = "\<lparr>project_name = ''app'', project_dir = ''/work/app'',
           project_distDir = ''/work/app/dist'',
           project_plugins = [?p1, ?p2, ?p3],
           project_platforms = [?linux],
           platformSpecified = False,
           dependencyDirMap = (\<lambda>name. None),
           renderTemplate = (\<lambda>template data. template)\<rparr>"
  let ?h = "\<lparr>host_cwd = ''/work'',
             host_walk = (\<lambda>(s :: unit) pattern baseDir. (Inr [], s)),
             host_writeArchive = (\<lambda>s file entries. (None, s)),
             host_writeFile = (\<lambda>s file. (None, s))\<rparr>"
  obtain m st out s' where g: "generate ?a ?project ?h () () = ((m, st, out), s')"
    by (cases "generate ?a ?project ?h () ()") auto
  have st: "length st = 1 \<and> out = None"
    using g
    by (auto simp: generate_def generate_step_def round_id_def idTemplate_of_def
        default_idTemplate_def active_mappings_def split: prod.splits)
  have h1: "getDefaultArtifactId ?p2 = Some (\<lambda>p. ''second'')" by simp
  have h2: "\<forall>q \<in> set [?p3]. getDefaultArtifactId q = None" by simp
  have h3: "project_plugins ?project = [?p1] @ ?p2 # [?p3]" by simp
  have h4: "\<not> truthy (cfg_id (art_config ?a))" by (simp add: truthy_def)
  note t = defaultIdPlugin_is_last
    [where plugins = "[]" and metadata = "()" and p = ?p2 and g = "\<lambda>p. ''second''"
       and later = "[?p3]" and earlier = "[?p1]" and specified = False
       and platform = ?linux and artifact = ?a and project = ?project and host = ?h
       and s = "()" and metadata' = m and steps = st and outcome = out and s' = s']
  note t2 = t [THEN conjunct2, THEN conjunct1]
  note t3 = t [THEN conjunct2, THEN conjunct2]
  from t2 h1 h2 have a: "snd (plugin_loop ([?p1] @ ?p2 # [?p3]) () None) = Some ?p2"
    by blast
  from t3 h1 h2 h3 h4 have
    b: "round_id ?a ?project (snd (plugin_loop (project_plugins ?project) () None)) ?linux
        = Inr (renderTemplate ?project
                 ((\<lambda>p. ''second'') (if platformSpecified ?project then Some ?linux else None))
                 (Some (id_data (platformSpecified ?project) ?linux)))"
    and c: "generate ?a ?project ?h () () = ((m, st, out), s') \<longrightarrow>
             map step_id st =
               map (\<lambda>platform.
                      renderTemplate ?project
                        ((\<lambda>p. ''second'') (if platformSpecified ?project then Some platform else None))
                        (Some (id_data (platformSpecified ?project) platform)))
                   (take (length st) (project_platforms ?project))"
    by blast+
  from c g st have ids: "map step_id st = [''second'']" by simp
  from a have a': "snd (plugin_loop [?p1, ?p2, ?p3] () None) = Some ?p2" by simp
  from b have b': "round_id ?a ?project (snd (plugin_loop [?p1, ?p2, ?p3] () None)) ?linux
                   = Inr ''second''" by simp
  have c': "(case generate ?a ?project ?h () () of
               ((metadata', steps, outcome), s') \<Rightarrow> (map step_id steps, outcome))
            = ([''second''], None)"
    using g ids st by simp
  from a' b' c' show ?thesis by (intro conjI)
qed

end
